theory Spec2Isabelle
  imports Complex_Main
begin

section \<open>Conventions of the embedding\<close>

text \<open>
  The Go services are embedded shallowly. A Go \<open>error\<close> value is represented by its text
  (the result of \<open>Error()\<close>), and \<open>nil\<close> by \<open>None\<close>. A pointer result that may be
  \<open>nil\<close> is an \<open>option\<close>. Go's \<open>int\<close> is 64 bits wide; every integer of the
  services counts elements of an in-memory slice, so it is modelled by \<open>int\<close> without
  wrap-around. A run-time panic (nil dereference, index out of range) is the value
  \<open>Panicked\<close>; a normal return is \<open>Returned\<close>.
\<close>

type_synonym error = string

datatype 'a exec = Panicked string | Returned 'a

subsection \<open>Formatting and string helpers of the Go standard library\<close>

text \<open>The verb \<open>%d\<close> of \<open>fmt\<close>: decimal digits, with a leading minus sign.\<close>

definition digitChar :: "nat \<Rightarrow> char" where
  "digitChar n = char_of (48 + n)"

fun natDigits :: "nat \<Rightarrow> string" where
  "natDigits n = (if n < 10 then [digitChar n] else natDigits (n div 10) @ [digitChar (n mod 10)])"

declare natDigits.simps [simp del]

definition fmtInt :: "int \<Rightarrow> string" where
  "fmtInt i = (if i < 0 then CHR ''-'' # natDigits (nat (- i)) else natDigits (nat i))"

text \<open>\<open>strings.HasPrefix\<close>, \<open>strings.Contains\<close> and \<open>strings.Join\<close>.\<close>

fun HasPrefix :: "string \<Rightarrow> string \<Rightarrow> bool" where
  "HasPrefix s [] = True"
| "HasPrefix [] (p # ps) = False"
| "HasPrefix (c # cs) (p # ps) = (c = p \<and> HasPrefix cs ps)"

fun Contains :: "string \<Rightarrow> string \<Rightarrow> bool" where
  "Contains [] sub = (sub = [])"
| "Contains (c # cs) sub = (HasPrefix (c # cs) sub \<or> Contains cs sub)"

fun Join :: "string list \<Rightarrow> string \<Rightarrow> string" where
  "Join [] sep = []"
| "Join [x] sep = x"
| "Join (x # y # ys) sep = x @ sep @ Join (y # ys) sep"

section \<open>Batch processor: records and deduplication\<close>

text \<open>\<open>processor.Paper\<close>, the source record of the ingestion stage.\<close>

record Paper =
  PaperID :: string
  Source :: string
  Title :: string
  Abstract :: string
  Authors :: "string list"
  PublishedDate :: string
  Categories :: "string list"
  RawXML :: string
  TraceID :: string
  BatchTimestamp :: string
  ProcessingStatus :: string
  CreatedAt :: string
  UpdatedAt :: string

record DeduplicationStats =
  OriginalCount :: int
  UniqueCount :: int
  DuplicateCount :: int
  InvalidCount :: int

text \<open>
  The working set of one call of \<open>DeduplicateWithStats\<close>: the map \<open>seen\<close>
  (\<open>map[string]bool\<close>, absent keys read as \<open>false\<close>), the slice \<open>deduplicated\<close> and the
  statistics. \<open>dedupStep\<close> is the body of the \<open>for _, paper := range papers\<close> loop.
\<close>

record DedupState =
  seen :: "string \<Rightarrow> bool"
  deduplicated :: "Paper list"
  stats :: DeduplicationStats

definition dedupStep :: "DedupState \<Rightarrow> Paper \<Rightarrow> DedupState" where
  "dedupStep st paper =
     (if Paper.PaperID paper = [] then
        st\<lparr>stats := (stats st)\<lparr>InvalidCount := InvalidCount (stats st) + 1\<rparr>\<rparr>
      else if \<not> seen st (Paper.PaperID paper) then
        st\<lparr>seen := (seen st)(Paper.PaperID paper := True),
           deduplicated := deduplicated st @ [paper]\<rparr>
      else
        st\<lparr>stats := (stats st)\<lparr>DuplicateCount := DuplicateCount (stats st) + 1\<rparr>\<rparr>)"

definition DeduplicateWithStats :: "Paper list \<Rightarrow> Paper list \<times> DeduplicationStats" where
  "DeduplicateWithStats papers =
     (let stats0 = \<lparr>OriginalCount = int (length papers), UniqueCount = 0,
                     DuplicateCount = 0, InvalidCount = 0\<rparr>
      in if length papers = 0 then (papers, stats0)
         else
           let st = foldl dedupStep
                      \<lparr>seen = (\<lambda>k. False), deduplicated = [], stats = stats0\<rparr> papers
           in (deduplicated st, (stats st)\<lparr>UniqueCount := int (length (deduplicated st))\<rparr>))"

subsection \<open>Positions of an input sequence, in the words of the specification\<close>

text \<open>
  Position \<open>k\<close> holds the first occurrence of its key when no earlier position has the
  same key. The retained positions are the first occurrences of non-empty keys; the
  duplicate positions are the later occurrences of non-empty keys; the invalid positions
  have an empty key.
\<close>

definition keyAt :: "Paper list \<Rightarrow> nat \<Rightarrow> string" where
  "keyAt papers k = Paper.PaperID (papers ! k)"

definition firstOccurrence :: "Paper list \<Rightarrow> nat \<Rightarrow> bool" where
  "firstOccurrence papers k = (keyAt papers k \<notin> set (map Paper.PaperID (take k papers)))"

definition retainedPositions :: "Paper list \<Rightarrow> nat list" where
  "retainedPositions papers =
     filter (\<lambda>k. keyAt papers k \<noteq> [] \<and> firstOccurrence papers k) [0..<length papers]"

definition duplicatePositions :: "Paper list \<Rightarrow> nat list" where
  "duplicatePositions papers =
     filter (\<lambda>k. keyAt papers k \<noteq> [] \<and> \<not> firstOccurrence papers k) [0..<length papers]"

definition invalidPositions :: "Paper list \<Rightarrow> nat list" where
  "invalidPositions papers = filter (\<lambda>k. keyAt papers k = []) [0..<length papers]"

text \<open>The loop invariant of \<open>DeduplicateWithStats\<close> after the prefix \<open>ps\<close> of the input.\<close>

definition dedupInv :: "DeduplicationStats \<Rightarrow> Paper list \<Rightarrow> DedupState \<Rightarrow> bool" where
  "dedupInv stats0 ps st =
     ((\<forall>k. seen st k = (k \<noteq> [] \<and> k \<in> set (map Paper.PaperID ps))) \<and>
      deduplicated st = map ((!) ps) (retainedPositions ps) \<and>
      DuplicateCount (stats st) = DuplicateCount stats0 + int (length (duplicatePositions ps)) \<and>
      InvalidCount (stats st) = InvalidCount stats0 + int (length (invalidPositions ps)) \<and>
      OriginalCount (stats st) = OriginalCount stats0 \<and>
      UniqueCount (stats st) = UniqueCount stats0)"

section \<open>Vector coordinator: the keyed-table client of the AWS SDK\<close>

text \<open>
  The services reach the table store through the SDK interface
  \<open>dynamodbiface.DynamoDBAPI\<close>. The store is a state machine of an arbitrary state
  type \<open>'s\<close>: a call takes the store's state and the request, and returns the SDK's pair
  (output pointer, error) with the next state. \<open>'i\<close> is the type of a marshalled item
  (\<open>map[string]*dynamodb.AttributeValue\<close>). The one-entry map literal
  \<open>map[string][]*dynamodb.WriteRequest{tableName: requests}\<close> is the association list
  \<open>[(tableName, requests)]\<close>; a \<open>nil\<close> map is the empty list, and a lookup is
  \<open>map_of\<close>.
\<close>

datatype 'i WriteRequest = PutRequest 'i

record 'i BatchWriteItemInput =
  RequestItems :: "(string \<times> 'i WriteRequest list) list"

record 'i BatchWriteItemOutput =
  UnprocessedItems :: "(string \<times> 'i WriteRequest list) list"

type_synonym ('s, 'i) BatchWriteClient =
  "'s \<Rightarrow> 'i BatchWriteItemInput \<Rightarrow> ('i BatchWriteItemOutput option \<times> error option) \<times> 's"

text \<open>The number of write requests one call carries.\<close>

definition itemCount :: "'i BatchWriteItemInput \<Rightarrow> nat" where
  "itemCount input = sum_list (map (\<lambda>(t, reqs). length reqs) (RequestItems input))"

section \<open>Vector coordinator: vector storage\<close>

text \<open>
  A \<open>float64\<close> is either NaN or a number. The storage code applies one floating-point
  operation, the self-comparison \<open>val != val\<close>, which holds exactly for NaN.
\<close>

datatype float64 = NaN | Num real

definition floatNeq :: "float64 \<Rightarrow> float64 \<Rightarrow> bool" where
  "floatNeq a b = (a = NaN \<or> b = NaN \<or> a \<noteq> b)"

record EmbeddingMetadata =
  ModelName :: string
  ModelVersion :: string
  Dimension :: int
  TextLength :: int
  Preprocessing :: string

record SourceText =
  Content :: string
  SourceFields :: "string list"
  Language :: string

record ProcessingInfo =
  CreatedAt :: string
  TraceID :: string
  ProcessingTimeMs :: int

record VectorRecord =
  PaperID :: string
  VectorType :: string
  Embedding :: "float64 list"
  EmbeddingMetadata :: EmbeddingMetadata
  SourceText :: SourceText
  ProcessingInfo :: ProcessingInfo

record BatchWriteResult =
  SuccessCount :: int
  FailedItems :: "VectorRecord list"
  Errors :: "error list"

text \<open>
  \<open>VectorStorage\<close> holds the client and the table name (the logger is left out: no log
  line of the storage is the subject of a property here).
  \<open>dynamodbattribute.MarshalMap\<close> is a library function and a parameter of the model.
\<close>

record ('s, 'i) VectorStorage =
  client :: "('s, 'i) BatchWriteClient"
  tableName :: string

type_synonym 'i Marshal = "VectorRecord \<Rightarrow> error + 'i"

definition extractModelName :: "string \<Rightarrow> string" where
  "extractModelName modelVersion = modelVersion"

text \<open>\<open>CreateVectorRecord\<close>; \<open>now\<close> is the formatted reading of the clock.\<close>

definition CreateVectorRecord ::
  "string \<Rightarrow> string \<Rightarrow> string \<Rightarrow> string \<Rightarrow> float64 list \<Rightarrow> string \<Rightarrow> int \<Rightarrow> VectorRecord" where
  "CreateVectorRecord now paperID text traceID embedding modelVersion processingTimeMs =
     \<lparr>VectorRecord.PaperID = paperID,
      VectorType = ''title_abstract'',
      Embedding = embedding,
      EmbeddingMetadata =
        \<lparr>ModelName = extractModelName modelVersion,
         ModelVersion = modelVersion,
         Dimension = int (length embedding),
         TextLength = int (length text),
         Preprocessing = ''title_abstract_combination''\<rparr>,
      SourceText =
        \<lparr>Content = text, SourceFields = [''title'', ''abstract''], Language = ''en''\<rparr>,
      ProcessingInfo =
        \<lparr>ProcessingInfo.CreatedAt = now, TraceID = traceID,
         ProcessingTimeMs = processingTimeMs\<rparr>\<rparr>"

text \<open>The loop \<open>for i, val := range record.Embedding\<close> of the validation.\<close>

fun nanIndex :: "float64 list \<Rightarrow> int \<Rightarrow> int option" where
  "nanIndex [] i = None"
| "nanIndex (val # rest) i = (if floatNeq val val then Some i else nanIndex rest (i + 1))"

definition validateVectorRecord :: "VectorRecord \<Rightarrow> error option" where
  "validateVectorRecord rec =
     (if VectorRecord.PaperID rec = [] then Some ''paper_id is empty''
      else if VectorType rec = [] then Some ''vector_type is empty''
      else if length (Embedding rec) = 0 then Some ''embedding vector is empty''
      else if Dimension (EmbeddingMetadata rec) \<noteq> int (length (Embedding rec)) then
        Some (''dimension mismatch: metadata says '' @ fmtInt (Dimension (EmbeddingMetadata rec))
              @ '', embedding has '' @ fmtInt (int (length (Embedding rec))))
      else if ModelVersion (EmbeddingMetadata rec) = [] then Some ''model_version is empty''
      else if ProcessingInfo.TraceID (ProcessingInfo rec) = [] then Some ''trace_id is empty''
      else case nanIndex (Embedding rec) 0 of
             Some i \<Rightarrow> Some (''embedding contains NaN at index '' @ fmtInt i)
           | None \<Rightarrow> None)"

text \<open>
  The two preparation loops of \<open>processBatch\<close>: validation, which moves an invalid record
  to the failed items, and marshalling, which builds the write requests.
\<close>

definition validateStep ::
  "BatchWriteResult \<times> VectorRecord list \<Rightarrow> VectorRecord \<Rightarrow> BatchWriteResult \<times> VectorRecord list" where
  "validateStep acc rec =
     (case acc of (result, validRecords) \<Rightarrow>
        (case validateVectorRecord rec of
           Some err \<Rightarrow>
             (result\<lparr>BatchWriteResult.FailedItems := BatchWriteResult.FailedItems result @ [rec],
                     Errors := Errors result
                       @ [''invalid record '' @ VectorRecord.PaperID rec @ '': '' @ err]\<rparr>,
              validRecords)
         | None \<Rightarrow> (result, validRecords @ [rec])))"

definition marshalStep ::
  "'i Marshal \<Rightarrow> BatchWriteResult \<times> 'i WriteRequest list \<Rightarrow> VectorRecord
     \<Rightarrow> BatchWriteResult \<times> 'i WriteRequest list" where
  "marshalStep MarshalMap acc rec =
     (case acc of (result, writeRequests) \<Rightarrow>
        (case MarshalMap rec of
           Inl err \<Rightarrow>
             (result\<lparr>BatchWriteResult.FailedItems := BatchWriteResult.FailedItems result @ [rec],
                     Errors := Errors result
                       @ [''failed to marshal record '' @ VectorRecord.PaperID rec @ '': '' @ err]\<rparr>,
              writeRequests)
         | Inr item \<Rightarrow> (result, writeRequests @ [PutRequest item])))"

text \<open>
  The loop that copies the unprocessed records into the failed items:
  \<open>for i := 0; i < unprocessedCount && startIndex+i < len(validRecords); i++\<close>.
  Indexing \<open>validRecords\<close> below zero panics.
\<close>

function addUnprocessed ::
  "int \<Rightarrow> nat \<Rightarrow> nat \<Rightarrow> VectorRecord list \<Rightarrow> VectorRecord list \<Rightarrow> VectorRecord list exec" where
  "addUnprocessed startIndex unprocessedCount i validRecords failed =
     (if i < unprocessedCount \<and> startIndex + int i < int (length validRecords) then
        (if startIndex + int i < 0 then Panicked ''index out of range''
         else addUnprocessed startIndex unprocessedCount (i + 1) validRecords
                (failed @ [validRecords ! nat (startIndex + int i)]))
      else Returned failed)"
  by pat_completeness auto
termination
  by (relation "measure (\<lambda>(startIndex, unprocessedCount, i, validRecords, failed).
        unprocessedCount - i)") auto

declare addUnprocessed.simps [simp del]

text \<open>
  \<open>processBatch\<close>. The result is the Go pair (result pointer, error), the list of the
  store calls issued and the store's next state. The log line after the store call reads
  \<open>output.ConsumedCapacity\<close> before \<open>err\<close> is looked at, so a \<open>nil\<close> output panics there.
\<close>

definition processBatch ::
  "'i Marshal \<Rightarrow> ('s, 'i) VectorStorage \<Rightarrow> VectorRecord list \<Rightarrow> 's
     \<Rightarrow> (BatchWriteResult option \<times> error option) exec \<times> 'i BatchWriteItemInput list \<times> 's" where
  "processBatch MarshalMap st records s =
     (let result0 = \<lparr>SuccessCount = 0, BatchWriteResult.FailedItems = [], Errors = []\<rparr>;
          (result1, validRecords) = foldl validateStep (result0, []) records
      in if length validRecords = 0 then (Returned (Some result1, None), [], s)
         else
           let (result2, writeRequests) = foldl (marshalStep MarshalMap) (result1, []) validRecords
           in if length writeRequests = 0 then (Returned (Some result2, None), [], s)
              else
                let input = \<lparr>RequestItems = [(VectorStorage.tableName st, writeRequests)]\<rparr>;
                    ((output, err), s') = VectorStorage.client st s input
                in case output of
                     None \<Rightarrow> (Panicked ''nil pointer dereference'', [input], s')
                   | Some out \<Rightarrow>
                      (case err of
                         Some e \<Rightarrow>
                           (Returned
                              (Some (result2\<lparr>BatchWriteResult.FailedItems := BatchWriteResult.FailedItems result2 @ validRecords,
                                             Errors := Errors result2
                                               @ [''batch write failed: '' @ e]\<rparr>),
                               None),
                            [input], s')
                       | None \<Rightarrow>
                           let totalRequested = length writeRequests;
                               unprocessedCount =
                                 (case map_of (UnprocessedItems out) (VectorStorage.tableName st) of
                                    Some unprocessedItems \<Rightarrow> length unprocessedItems
                                  | None \<Rightarrow> 0);
                               result3 = result2\<lparr>SuccessCount :=
                                           int totalRequested - int unprocessedCount\<rparr>
                           in if unprocessedCount > 0 then
                                (case addUnprocessed (SuccessCount result3) unprocessedCount 0
                                        validRecords (BatchWriteResult.FailedItems result3) of
                                   Panicked msg \<Rightarrow> (Panicked msg, [input], s')
                                 | Returned failed \<Rightarrow>
                                     (Returned (Some (result3\<lparr>BatchWriteResult.FailedItems := failed\<rparr>), None),
                                      [input], s'))
                              else (Returned (Some result3, None), [input], s')))"

text \<open>
  \<open>BatchStoreVectors\<close>: the loop \<open>for i := 0; i < len(records); i += batchSize\<close> over the
  chunks \<open>records[i:end]\<close>, then the function itself.
\<close>

definition batchSize :: nat where
  "batchSize = 25"

function BatchStoreLoop ::
  "'i Marshal \<Rightarrow> ('s, 'i) VectorStorage \<Rightarrow> VectorRecord list \<Rightarrow> nat \<Rightarrow> BatchWriteResult
     \<Rightarrow> 'i BatchWriteItemInput list \<Rightarrow> 's
     \<Rightarrow> BatchWriteResult exec \<times> 'i BatchWriteItemInput list \<times> 's" where
  "BatchStoreLoop MarshalMap st records i result calls s =
     (if i < length records then
        (let end = (if i + batchSize > length records then length records else i + batchSize);
             batch = take (end - i) (drop i records)
         in case processBatch MarshalMap st batch s of
              (Panicked msg, cs, s') \<Rightarrow> (Panicked msg, calls @ cs, s')
            | (Returned (batchResult, Some err), cs, s') \<Rightarrow>
                BatchStoreLoop MarshalMap st records (i + batchSize)
                  (result\<lparr>Errors := Errors result @ [err],
                          BatchWriteResult.FailedItems := BatchWriteResult.FailedItems result @ batch\<rparr>)
                  (calls @ cs) s'
            | (Returned (None, None), cs, s') \<Rightarrow>
                (Panicked ''nil pointer dereference'', calls @ cs, s')
            | (Returned (Some br, None), cs, s') \<Rightarrow>
                BatchStoreLoop MarshalMap st records (i + batchSize)
                  (result\<lparr>SuccessCount := SuccessCount result + SuccessCount br,
                          BatchWriteResult.FailedItems := BatchWriteResult.FailedItems result @ BatchWriteResult.FailedItems br,
                          Errors := Errors result @ Errors br\<rparr>)
                  (calls @ cs) s')
      else (Returned result, calls, s))"
  by pat_completeness auto
termination
  by (relation "measure (\<lambda>(MarshalMap, st, records, i, result, calls, s). length records - i)")
     (auto simp: batchSize_def)

declare BatchStoreLoop.simps [simp del]

definition BatchStoreVectors ::
  "'i Marshal \<Rightarrow> ('s, 'i) VectorStorage \<Rightarrow> VectorRecord list \<Rightarrow> 's
     \<Rightarrow> (BatchWriteResult option \<times> error option) exec \<times> 'i BatchWriteItemInput list \<times> 's" where
  "BatchStoreVectors MarshalMap st records s =
     (if length records = 0 then
        (Returned (Some \<lparr>SuccessCount = 0, BatchWriteResult.FailedItems = [], Errors = []\<rparr>, None), [], s)
      else
        (case BatchStoreLoop MarshalMap st records 0
                \<lparr>SuccessCount = 0, BatchWriteResult.FailedItems = [], Errors = []\<rparr> [] s of
           (Panicked msg, calls, s') \<Rightarrow> (Panicked msg, calls, s')
         | (Returned result, calls, s') \<Rightarrow> (Returned (Some result, None), calls, s')))"

subsection \<open>Auxiliary notions for the storage proofs\<close>

text \<open>
  The valid and invalid records of a chunk, the write requests built from the valid ones,
  the records that fail to marshal, and two conditions on the environment:
  \<open>marshalsAll\<close> (marshalling fails for no record of the list) and \<open>wellBehaved\<close>
  (the client returns an output object on every call, as the SDK does, and reports at
  most as many unprocessed items for the table as the call carried).
\<close>

definition invalidError :: "VectorRecord \<Rightarrow> error" where
  "invalidError rec = ''invalid record '' @ VectorRecord.PaperID rec @ '': ''
      @ the (validateVectorRecord rec)"

definition marshalError :: "'i Marshal \<Rightarrow> VectorRecord \<Rightarrow> error" where
  "marshalError MarshalMap rec = ''failed to marshal record '' @ VectorRecord.PaperID rec @ '': ''
      @ projl (MarshalMap rec)"

definition validOf :: "VectorRecord list \<Rightarrow> VectorRecord list" where
  "validOf records = filter (\<lambda>r. validateVectorRecord r = None) records"

definition invalidOf :: "VectorRecord list \<Rightarrow> VectorRecord list" where
  "invalidOf records = filter (\<lambda>r. validateVectorRecord r \<noteq> None) records"

definition requestsOf :: "'i Marshal \<Rightarrow> VectorRecord list \<Rightarrow> 'i WriteRequest list" where
  "requestsOf MarshalMap vs =
     map (\<lambda>r. PutRequest (projr (MarshalMap r))) (filter (\<lambda>r. \<not> isl (MarshalMap r)) vs)"

definition unmarshalledOf :: "'i Marshal \<Rightarrow> VectorRecord list \<Rightarrow> VectorRecord list" where
  "unmarshalledOf MarshalMap vs = filter (\<lambda>r. isl (MarshalMap r)) vs"

definition marshalsAll :: "'i Marshal \<Rightarrow> VectorRecord list \<Rightarrow> bool" where
  "marshalsAll MarshalMap records = (filter (\<lambda>r. isl (MarshalMap r)) records = [])"

definition wellBehaved :: "('s, 'i) VectorStorage \<Rightarrow> bool" where
  "wellBehaved st =
     (\<forall>s input. case VectorStorage.client st s input of
        ((None, err), s') \<Rightarrow> False
      | ((Some out, err), s') \<Rightarrow>
          (case map_of (UnprocessedItems out) (VectorStorage.tableName st) of
             Some unprocessedItems \<Rightarrow> length unprocessedItems \<le> itemCount input
           | None \<Rightarrow> True))"

definition mergeBatch :: "BatchWriteResult \<Rightarrow> BatchWriteResult \<Rightarrow> BatchWriteResult" where
  "mergeBatch result br =
     result\<lparr>SuccessCount := SuccessCount result + SuccessCount br,
            BatchWriteResult.FailedItems := BatchWriteResult.FailedItems result @ BatchWriteResult.FailedItems br,
            Errors := Errors result @ Errors br\<rparr>"

text \<open>
  The consecutive chunks \<open>xs[i:i+25]\<close>, \<open>xs[i+25:i+50]\<close>, ... that the chunk loops of both
  writers visit from index \<open>i\<close> on, and the store calls the vector writer makes for a list
  of chunks: one call per chunk that has a valid record which marshals, carrying the write
  requests of those records.
\<close>

definition chunksFrom :: "nat \<Rightarrow> 'a list \<Rightarrow> 'a list list" where
  "chunksFrom i xs =
     map (\<lambda>k. take 25 (drop (i + 25 * k) xs)) [0..<(length xs - i + 24) div 25]"

definition chunks :: "'a list \<Rightarrow> 'a list list" where
  "chunks xs = chunksFrom 0 xs"

definition vectorCalls ::
  "'i Marshal \<Rightarrow> ('s, 'i) VectorStorage \<Rightarrow> VectorRecord list list \<Rightarrow> 'i BatchWriteItemInput list" where
  "vectorCalls MarshalMap st chs =
     map (\<lambda>ch. \<lparr>RequestItems = [(VectorStorage.tableName st, requestsOf MarshalMap (validOf ch))]\<rparr>)
       (filter (\<lambda>ch. requestsOf MarshalMap (validOf ch) \<noteq> []) chs)"

section \<open>Batch processor: the DynamoDB writer of the ingestion stage\<close>

text \<open>
  \<open>Writer\<close> of package \<open>dynamodb\<close>. Its record of store calls keeps each request
  together with the SDK's answer, since the retry loop feeds an answer into the next request.
\<close>

record ('s, 'i) Writer =
  client :: "('s, 'i) BatchWriteClient"
  tableName :: string

type_synonym 'i PaperMarshal = "Paper \<Rightarrow> error + 'i"

type_synonym 'i Exchange =
  "'i BatchWriteItemInput \<times> ('i BatchWriteItemOutput option \<times> error option)"

definition MaxBatchSize :: nat where
  "MaxBatchSize = 25"

record UpsertStats =
  TotalItems :: int
  SuccessItems :: int
  FailedItems :: int
  BatchCount :: int
  SuccessBatches :: int
  FailedBatches :: int

text \<open>
  The loop of \<open>executeBatchWriteWithRetry\<close>:
  \<open>for attempt := 0; attempt < maxRetries && len(currentRequests) > 0; attempt++\<close>.
  The answer's \<open>UnprocessedItems\<close> is read after the error check, so a \<open>nil\<close> output
  with a \<open>nil\<close> error panics.
\<close>

function retryLoop ::
  "('s, 'i) Writer \<Rightarrow> nat \<Rightarrow> nat \<Rightarrow> 'i WriteRequest list \<Rightarrow> 'i Exchange list \<Rightarrow> 's
     \<Rightarrow> error option exec \<times> 'i Exchange list \<times> 's" where
  "retryLoop w maxRetries attempt currentRequests calls s =
     (if attempt < maxRetries \<and> length currentRequests > 0 then
        (let input = \<lparr>RequestItems = [(Writer.tableName w, currentRequests)]\<rparr>
         in case Writer.client w s input of
              ((result, Some err), s') \<Rightarrow>
                (Returned (Some (''batch write failed on attempt '' @ fmtInt (int attempt + 1)
                                 @ '': '' @ err)),
                 calls @ [(input, (result, Some err))], s')
            | ((None, None), s') \<Rightarrow>
                (Panicked ''nil pointer dereference'', calls @ [(input, (None, None))], s')
            | ((Some out, None), s') \<Rightarrow>
                (case map_of (UnprocessedItems out) (Writer.tableName w) of
                   Some unprocessedItems \<Rightarrow>
                     if length unprocessedItems > 0
                     then retryLoop w maxRetries (attempt + 1) unprocessedItems
                            (calls @ [(input, (Some out, None))]) s'
                     else (Returned None, calls @ [(input, (Some out, None))], s')
                 | None \<Rightarrow> (Returned None, calls @ [(input, (Some out, None))], s')))
      else
        (Returned (Some (''failed to process '' @ fmtInt (int (length currentRequests))
                         @ '' items after '' @ fmtInt (int maxRetries) @ '' retries'')),
         calls, s))"
  by pat_completeness auto
termination
  by (relation "measure (\<lambda>(w, maxRetries, attempt, currentRequests, calls, s).
        maxRetries - attempt)") auto

declare retryLoop.simps [simp del]

definition executeBatchWriteWithRetry ::
  "('s, 'i) Writer \<Rightarrow> 'i WriteRequest list \<Rightarrow> 's
     \<Rightarrow> error option exec \<times> 'i Exchange list \<times> 's" where
  "executeBatchWriteWithRetry w writeRequests s = retryLoop w 3 0 writeRequests [] s"

text \<open>\<open>Writer.processBatch\<close>: a paper that fails to marshal is skipped.\<close>

definition marshalPaperStep ::
  "'i PaperMarshal \<Rightarrow> 'i WriteRequest list \<Rightarrow> Paper \<Rightarrow> 'i WriteRequest list" where
  "marshalPaperStep MarshalMap writeRequests paper =
     (case MarshalMap paper of
        Inl err \<Rightarrow> writeRequests
      | Inr item \<Rightarrow> writeRequests @ [PutRequest item])"

definition Writer_processBatch ::
  "'i PaperMarshal \<Rightarrow> ('s, 'i) Writer \<Rightarrow> Paper list \<Rightarrow> 's
     \<Rightarrow> error option exec \<times> 'i Exchange list \<times> 's" where
  "Writer_processBatch MarshalMap w papers s =
     (if length papers = 0 then (Returned None, [], s)
      else if length papers > MaxBatchSize then
        (Returned (Some (''batch size '' @ fmtInt (int (length papers)) @ '' exceeds maximum ''
                         @ fmtInt (int MaxBatchSize))), [], s)
      else
        let writeRequests = foldl (marshalPaperStep MarshalMap) [] papers
        in if length writeRequests = 0 then
             (Returned (Some ''no valid write requests generated from batch''), [], s)
           else executeBatchWriteWithRetry w writeRequests s)"

text \<open>
  \<open>BatchUpsertWithStats\<close>, the method the ingestion stage calls: the chunk loop
  \<open>for i := 0; i < len(papers); i += MaxBatchSize\<close> goes on after a failed chunk.
\<close>

function BatchUpsertLoop ::
  "'i PaperMarshal \<Rightarrow> ('s, 'i) Writer \<Rightarrow> Paper list \<Rightarrow> nat \<Rightarrow> UpsertStats
     \<Rightarrow> 'i Exchange list \<Rightarrow> 's \<Rightarrow> UpsertStats exec \<times> 'i Exchange list \<times> 's" where
  "BatchUpsertLoop MarshalMap w papers i upsertStats calls s =
     (if i < length papers then
        (let end = (if i + MaxBatchSize > length papers then length papers else i + MaxBatchSize);
             batch = take (end - i) (drop i papers)
         in case Writer_processBatch MarshalMap w batch s of
              (Panicked msg, cs, s') \<Rightarrow> (Panicked msg, calls @ cs, s')
            | (Returned (Some err), cs, s') \<Rightarrow>
                BatchUpsertLoop MarshalMap w papers (i + MaxBatchSize)
                  (upsertStats\<lparr>UpsertStats.FailedItems :=
                            UpsertStats.FailedItems upsertStats + int (length batch),
                         FailedBatches := FailedBatches upsertStats + 1\<rparr>)
                  (calls @ cs) s'
            | (Returned None, cs, s') \<Rightarrow>
                BatchUpsertLoop MarshalMap w papers (i + MaxBatchSize)
                  (upsertStats\<lparr>SuccessItems := SuccessItems upsertStats + int (length batch),
                         SuccessBatches := SuccessBatches upsertStats + 1\<rparr>)
                  (calls @ cs) s')
      else (Returned upsertStats, calls, s))"
  by pat_completeness auto
termination
  by (relation "measure (\<lambda>(MarshalMap, w, papers, i, upsertStats, calls, s). length papers - i)")
     (auto simp: MaxBatchSize_def)

declare BatchUpsertLoop.simps [simp del]

definition BatchUpsertWithStats ::
  "'i PaperMarshal \<Rightarrow> ('s, 'i) Writer \<Rightarrow> Paper list \<Rightarrow> 's
     \<Rightarrow> (UpsertStats option \<times> error option) exec \<times> 'i Exchange list \<times> 's" where
  "BatchUpsertWithStats MarshalMap w papers s =
     (let stats = \<lparr>TotalItems = int (length papers), SuccessItems = 0,
                    UpsertStats.FailedItems = 0,
                    BatchCount = (int (length papers) + int MaxBatchSize - 1) div int MaxBatchSize,
                    SuccessBatches = 0, FailedBatches = 0\<rparr>
      in if length papers = 0 then (Returned (Some stats, None), [], s)
         else
           (case BatchUpsertLoop MarshalMap w papers 0 stats [] s of
              (Panicked msg, calls, s') \<Rightarrow> (Panicked msg, calls, s')
            | (Returned stats', calls, s') \<Rightarrow> (Returned (Some stats', None), calls, s')))"

subsection \<open>Auxiliary notions for the writer proofs\<close>

text \<open>
  What one exchange with the store sent and what its answer left unprocessed; a chain of
  exchanges in which every call carries exactly the unprocessed items of the call before;
  the verdict of the retry loop read off its last exchange; and a store that writes every
  item at the first attempt.
\<close>

definition sent :: "string \<Rightarrow> 'i Exchange \<Rightarrow> 'i WriteRequest list" where
  "sent table x = (case map_of (RequestItems (fst x)) table of Some reqs \<Rightarrow> reqs | None \<Rightarrow> [])"

definition unprocessedIn :: "string \<Rightarrow> 'i BatchWriteItemOutput \<Rightarrow> 'i WriteRequest list" where
  "unprocessedIn table out =
     (case map_of (UnprocessedItems out) table of Some us \<Rightarrow> us | None \<Rightarrow> [])"

definition unprocessedOf :: "string \<Rightarrow> 'i Exchange \<Rightarrow> 'i WriteRequest list" where
  "unprocessedOf table x =
     (case snd x of (Some out, None) \<Rightarrow> unprocessedIn table out | _ \<Rightarrow> [])"

fun chained :: "string \<Rightarrow> 'i Exchange list \<Rightarrow> bool" where
  "chained table [] = True"
| "chained table [x] = True"
| "chained table (x # y # ys) =
     (unprocessedOf table x \<noteq> [] \<and> sent table y = unprocessedOf table x
      \<and> chained table (y # ys))"

definition exhaustedError :: "nat \<Rightarrow> 'i WriteRequest list \<Rightarrow> error" where
  "exhaustedError maxRetries currentRequests =
     ''failed to process '' @ fmtInt (int (length currentRequests))
       @ '' items after '' @ fmtInt (int maxRetries) @ '' retries''"

definition writeInput :: "('s, 'i) Writer \<Rightarrow> 'i WriteRequest list \<Rightarrow> 'i BatchWriteItemInput" where
  "writeInput w reqs = \<lparr>RequestItems = [(Writer.tableName w, reqs)]\<rparr>"

definition lastVerdict ::
  "string \<Rightarrow> nat \<Rightarrow> nat \<Rightarrow> 'i Exchange list \<Rightarrow> error option exec \<Rightarrow> bool" where
  "lastVerdict table m attempt new out =
     (case snd (last new) of
        (result, Some e) \<Rightarrow> (\<exists>msg. out = Returned (Some msg))
      | (None, None) \<Rightarrow> out = Panicked ''nil pointer dereference''
      | (Some ans, None) \<Rightarrow>
          if unprocessedIn table ans = [] then out = Returned None
          else length new = m - attempt \<and>
               out = Returned (Some (exhaustedError m (unprocessedIn table ans))))"

definition retrySpec ::
  "string \<Rightarrow> nat \<Rightarrow> nat \<Rightarrow> 'i WriteRequest list \<Rightarrow> 'i Exchange list \<Rightarrow> error option exec \<Rightarrow> bool" where
  "retrySpec table m attempt cur new out =
     (chained table new \<and> length new \<le> m - attempt \<and>
      (if new = [] then \<not> (attempt < m \<and> cur \<noteq> []) \<and> out = Returned (Some (exhaustedError m cur))
       else attempt < m \<and> cur \<noteq> [] \<and> sent table (hd new) = cur \<and>
            lastVerdict table m attempt new out))"

definition paperRequests :: "'i PaperMarshal \<Rightarrow> Paper list \<Rightarrow> 'i WriteRequest list" where
  "paperRequests MarshalMap papers =
     map (\<lambda>p. PutRequest (projr (MarshalMap p))) (filter (\<lambda>p. \<not> isl (MarshalMap p)) papers)"

definition acceptsEverything :: "('s, 'i) Writer \<Rightarrow> bool" where
  "acceptsEverything w =
     (\<forall>s input. \<exists>ans s'. Writer.client w s input = ((Some ans, None), s') \<and>
                          unprocessedIn (Writer.tableName w) ans = [])"

definition upsertFailed :: "UpsertStats \<Rightarrow> Paper list \<Rightarrow> UpsertStats" where
  "upsertFailed upsertStats batch =
     upsertStats\<lparr>UpsertStats.FailedItems := UpsertStats.FailedItems upsertStats + int (length batch),
                 FailedBatches := FailedBatches upsertStats + 1\<rparr>"

definition upsertSucceeded :: "UpsertStats \<Rightarrow> Paper list \<Rightarrow> UpsertStats" where
  "upsertSucceeded upsertStats batch =
     upsertStats\<lparr>SuccessItems := SuccessItems upsertStats + int (length batch),
                 SuccessBatches := SuccessBatches upsertStats + 1\<rparr>"

text \<open>
  The store calls the source-record writer makes for a list of chunks when every write
  succeeds at the first attempt: one call per chunk, carrying the write requests of the
  papers of the chunk that marshal.
\<close>

definition writerCalls ::
  "'i PaperMarshal \<Rightarrow> ('s, 'i) Writer \<Rightarrow> Paper list list \<Rightarrow> 'i BatchWriteItemInput list" where
  "writerCalls MarshalMap w chs = map (\<lambda>ch. writeInput w (paperRequests MarshalMap ch)) chs"

section \<open>Vector coordinator: the paginated retriever\<close>

text \<open>
  \<open>retriever.Paper\<close> (a second struct named \<open>Paper\<close>, of package \<open>retriever\<close>) and
  \<open>CombinedText\<close>.
\<close>

record RetrieverPaper =
  PaperID :: string
  Source :: string
  Title :: string
  Abstract :: string
  Authors :: "string list"
  PublishedDate :: string
  Categories :: "string list"
  TraceID :: string
  BatchTimestamp :: string

record CombinedText =
  PaperID :: string
  Text :: string

text \<open>
  The query side of the SDK client. \<open>'k\<close> is the type of a pagination cursor
  (\<open>LastEvaluatedKey\<close>, \<open>nil\<close> when absent) and \<open>'raw\<close> the type of a raw item;
  \<open>dynamodbattribute.UnmarshalListOfMaps\<close> and \<open>strings.TrimSpace\<close> are library
  functions and parameters of the model.
\<close>

record 'k QueryInput =
  TableName :: string
  IndexName :: string
  KeyConditionExpression :: string
  ExpressionAttributeValues :: "(string \<times> string) list"
  ScanIndexForward :: bool
  ExclusiveStartKey :: "'k option"

record ('raw, 'k) QueryOutput =
  Items :: "'raw list"
  LastEvaluatedKey :: "'k option"

type_synonym ('s, 'raw, 'k) QueryClient =
  "'s \<Rightarrow> 'k QueryInput \<Rightarrow> (('raw, 'k) QueryOutput option \<times> error option) \<times> 's"

type_synonym ('raw, 'k) QueryExchange =
  "'k QueryInput \<times> (('raw, 'k) QueryOutput option \<times> error option)"

type_synonym 'raw Unmarshal = "'raw list \<Rightarrow> error + RetrieverPaper list"

record ('s, 'raw, 'k) DataRetriever =
  client :: "('s, 'raw, 'k) QueryClient"
  tableName :: string
  indexName :: string

text \<open>
  The log lines of the retriever, as (level, message) pairs. \<open>Debug\<close> writes only when
  the environment variable \<open>LOG_LEVEL\<close> is \<open>DEBUG\<close>; its lines are left out.
\<close>

datatype LogLevel = LevelInfo | LevelWarn | LevelError | LevelDebug

type_synonym LogEntry = "LogLevel \<times> string"

definition validatePaper :: "RetrieverPaper \<Rightarrow> error option" where
  "validatePaper paper =
     (if RetrieverPaper.PaperID paper = [] then Some ''paper_id is empty''
      else if RetrieverPaper.TraceID paper = [] then Some ''trace_id is empty''
      else if RetrieverPaper.Title paper = [] \<and> RetrieverPaper.Abstract paper = [] then
        Some ''both title and abstract are empty''
      else None)"

text \<open>The validation loop of one page: an invalid paper is logged and dropped.\<close>

definition validatePageStep ::
  "RetrieverPaper list \<times> LogEntry list \<Rightarrow> RetrieverPaper \<Rightarrow> RetrieverPaper list \<times> LogEntry list" where
  "validatePageStep acc paper =
     (case acc of (validPapers, lg) \<Rightarrow>
        (case validatePaper paper of
           Some err \<Rightarrow> (validPapers, lg @ [(LevelWarn, ''Invalid paper data found'')])
         | None \<Rightarrow> (validPapers @ [paper], lg)))"

text \<open>
  The page loop \<open>for pageCount < maxPages\<close>. It ends in one of three ways: an early
  \<open>return nil, err\<close> (\<open>Inl\<close>), the end of the loop with the papers collected and the
  page count (\<open>Inr\<close>), or a panic when the client answers \<open>nil, nil\<close>.
\<close>

function pageLoop ::
  "'raw Unmarshal \<Rightarrow> ('s, 'raw, 'k) DataRetriever \<Rightarrow> string \<Rightarrow> nat \<Rightarrow> nat \<Rightarrow> 'k option
     \<Rightarrow> RetrieverPaper list \<Rightarrow> ('raw, 'k) QueryExchange list \<Rightarrow> LogEntry list \<Rightarrow> 's
     \<Rightarrow> (error + RetrieverPaper list \<times> nat) exec
         \<times> ('raw, 'k) QueryExchange list \<times> LogEntry list \<times> 's" where
  "pageLoop UnmarshalListOfMaps r traceID maxPages pageCount lastEvaluatedKey allPapers calls lg s =
     (if pageCount < maxPages then
        (let input = \<lparr>TableName = DataRetriever.tableName r,
                       IndexName = DataRetriever.indexName r,
                       KeyConditionExpression = ''trace_id = :trace_id'',
                       ExpressionAttributeValues = [('':trace_id'', traceID)],
                       ScanIndexForward = False,
                       ExclusiveStartKey = lastEvaluatedKey\<rparr>
         in case DataRetriever.client r s input of
              ((result, Some err), s') \<Rightarrow>
                (Returned (Inl (''failed to query papers by traceID on page ''
                                @ fmtInt (int (pageCount + 1)) @ '': '' @ err)),
                 calls @ [(input, (result, Some err))],
                 lg @ [(LevelError, ''Failed to query papers by traceID'')], s')
            | ((None, None), s') \<Rightarrow>
                (Panicked ''nil pointer dereference'', calls @ [(input, (None, None))], lg, s')
            | ((Some result, None), s') \<Rightarrow>
                (case UnmarshalListOfMaps (Items result) of
                   Inl err \<Rightarrow>
                     (Returned (Inl (''failed to unmarshal papers on page ''
                                     @ fmtInt (int (pageCount + 1)) @ '': '' @ err)),
                      calls @ [(input, (Some result, None))],
                      lg @ [(LevelError, ''Failed to unmarshal papers'')], s')
                 | Inr papers \<Rightarrow>
                     (case foldl validatePageStep ([], lg) papers of
                        (validPapers, lg') \<Rightarrow>
                          (case LastEvaluatedKey result of
                             None \<Rightarrow>
                               (Returned (Inr (allPapers @ validPapers, pageCount + 1)),
                                calls @ [(input, (Some result, None))],
                                lg' @ [(LevelInfo, ''Retrieved paper batch'')], s')
                           | Some key \<Rightarrow>
                               pageLoop UnmarshalListOfMaps r traceID maxPages (pageCount + 1)
                                 (Some key) (allPapers @ validPapers)
                                 (calls @ [(input, (Some result, None))])
                                 (lg' @ [(LevelInfo, ''Retrieved paper batch'')]) s'))))
      else (Returned (Inr (allPapers, pageCount)), calls, lg, s))"
  by pat_completeness auto
termination
  by (relation "measure (\<lambda>(u, r, traceID, maxPages, pageCount, rest). maxPages - pageCount)")
     auto

declare pageLoop.simps [simp del]

text \<open>The text-combination loop over the collected papers.\<close>

definition combineStep ::
  "(string \<Rightarrow> string) \<Rightarrow> CombinedText list \<times> LogEntry list \<Rightarrow> RetrieverPaper
     \<Rightarrow> CombinedText list \<times> LogEntry list" where
  "combineStep TrimSpace acc paper =
     (case acc of (combinedTexts, lg) \<Rightarrow>
        if RetrieverPaper.Title paper = [] \<and> RetrieverPaper.Abstract paper = [] then
          (combinedTexts, lg @ [(LevelWarn, ''Skipping paper with empty title and abstract'')])
        else
          let textParts = (if RetrieverPaper.Title paper \<noteq> []
                           then [TrimSpace (RetrieverPaper.Title paper)] else [])
                        @ (if RetrieverPaper.Abstract paper \<noteq> []
                           then [TrimSpace (RetrieverPaper.Abstract paper)] else [])
          in (combinedTexts
                @ [\<lparr>CombinedText.PaperID = RetrieverPaper.PaperID paper,
                    Text = Join textParts ''. ''\<rparr>],
              lg))"

definition maxPages :: nat where
  "maxPages = 100"

definition GetCombinedTextsByTraceID ::
  "'raw Unmarshal \<Rightarrow> (string \<Rightarrow> string) \<Rightarrow> ('s, 'raw, 'k) DataRetriever \<Rightarrow> string \<Rightarrow> 's
     \<Rightarrow> (CombinedText list \<times> error option) exec
         \<times> ('raw, 'k) QueryExchange list \<times> LogEntry list \<times> 's" where
  "GetCombinedTextsByTraceID UnmarshalListOfMaps TrimSpace r traceID s =
     (if traceID = [] then (Returned ([], Some ''traceID cannot be empty''), [], [], s)
      else
        (case pageLoop UnmarshalListOfMaps r traceID maxPages 0 None [] []
                [(LevelInfo, ''Starting paper retrieval by traceID'')] s of
           (Panicked msg, calls, lg, s') \<Rightarrow> (Panicked msg, calls, lg, s')
         | (Returned (Inl err), calls, lg, s') \<Rightarrow> (Returned ([], Some err), calls, lg, s')
         | (Returned (Inr (allPapers, pageCount)), calls, lg, s') \<Rightarrow>
             (let lg1 = (if pageCount \<ge> maxPages
                         then lg @ [(LevelWarn, ''Hit maximum page limit during retrieval'')]
                         else lg)
                        @ [(LevelInfo, ''Completed paper retrieval by traceID'')]
              in if length allPapers = 0 then (Returned ([], None), calls, lg1, s')
                 else
                   (case foldl (combineStep TrimSpace)
                           ([], lg1 @ [(LevelInfo, ''Starting text combination'')]) allPapers of
                      (combinedTexts, lg2) \<Rightarrow>
                        (Returned (combinedTexts, None), calls,
                         lg2 @ [(LevelInfo, ''Completed text combination'')], s')))))"

subsection \<open>Auxiliary notions for the retriever proofs\<close>

text \<open>
  The query the page loop sends, the valid papers one exchange contributed, the texts
  combined from a list of papers, a store that answers every query with a page and a
  next cursor, and a log without a line of level error.
\<close>

definition queryInput :: "('s, 'raw, 'k) DataRetriever \<Rightarrow> string \<Rightarrow> 'k option \<Rightarrow> 'k QueryInput" where
  "queryInput r traceID lastEvaluatedKey =
     \<lparr>TableName = DataRetriever.tableName r, IndexName = DataRetriever.indexName r,
      KeyConditionExpression = ''trace_id = :trace_id'',
      ExpressionAttributeValues = [('':trace_id'', traceID)],
      ScanIndexForward = False, ExclusiveStartKey = lastEvaluatedKey\<rparr>"

definition pagePapers :: "'raw Unmarshal \<Rightarrow> ('raw, 'k) QueryExchange \<Rightarrow> RetrieverPaper list" where
  "pagePapers UnmarshalListOfMaps x =
     (case snd x of
        (Some result, None) \<Rightarrow>
          (case UnmarshalListOfMaps (Items result) of
             Inr papers \<Rightarrow> filter (\<lambda>p. validatePaper p = None) papers
           | Inl err \<Rightarrow> [])
      | _ \<Rightarrow> [])"

definition combinedTextOf :: "(string \<Rightarrow> string) \<Rightarrow> RetrieverPaper \<Rightarrow> CombinedText" where
  "combinedTextOf TrimSpace paper =
     \<lparr>CombinedText.PaperID = RetrieverPaper.PaperID paper,
      Text = Join ((if RetrieverPaper.Title paper \<noteq> []
                    then [TrimSpace (RetrieverPaper.Title paper)] else [])
                   @ (if RetrieverPaper.Abstract paper \<noteq> []
                      then [TrimSpace (RetrieverPaper.Abstract paper)] else [])) ''. ''\<rparr>"

definition combinedTextsOf :: "(string \<Rightarrow> string) \<Rightarrow> RetrieverPaper list \<Rightarrow> CombinedText list" where
  "combinedTextsOf TrimSpace papers =
     map (combinedTextOf TrimSpace)
       (filter (\<lambda>p. \<not> (RetrieverPaper.Title p = [] \<and> RetrieverPaper.Abstract p = [])) papers)"

definition alwaysMore :: "'raw Unmarshal \<Rightarrow> ('s, 'raw, 'k) DataRetriever \<Rightarrow> bool" where
  "alwaysMore UnmarshalListOfMaps r =
     (\<forall>s input. \<exists>result key papers s'.
        DataRetriever.client r s input = ((Some result, None), s') \<and>
        LastEvaluatedKey result = Some key \<and>
        UnmarshalListOfMaps (Items result) = Inr papers)"

definition errorFree :: "LogEntry list \<Rightarrow> bool" where
  "errorFree lg = (filter (\<lambda>e. fst e = LevelError) lg = [])"

section \<open>Vector coordinator: the vectorization stage\<close>

datatype ProcessingStatus =
  StatusStarted | StatusInProgress | StatusCompleted | StatusFailed | StatusPartial

record ProcessingResult =
  TraceID :: string
  Status :: ProcessingStatus
  TotalPapers :: int
  EmbeddingsGenerated :: int
  VectorsStored :: int
  FailedEmbeddings :: int
  FailedStorage :: int
  ProcessingTimeMs :: int
  ErrorMessage :: string
  Timestamp :: string

record ProcessingError =
  Stage :: string
  Message :: string
  Cause :: "error option"

text \<open>The method \<open>Error()\<close> of \<open>ProcessingError\<close>: the text an orchestrator sees.\<close>

definition ProcessingError_Error :: "ProcessingError \<Rightarrow> string" where
  "ProcessingError_Error e =
     (case Cause e of
        Some cause \<Rightarrow> Stage e @ '': '' @ Message e @ '' (caused by: '' @ cause @ '')''
      | None \<Rightarrow> Stage e @ '': '' @ Message e)"

record EmbeddingResponse =
  Embedding :: "float64 list"
  ModelVersion :: string
  Dimension :: int
  ProcessingTimeMs :: int

text \<open>
  The coordinator holds its three collaborators behind interfaces. Each is a function on
  a world state \<open>'w\<close> returning the Go pair of the interface method, or a panic of the
  implementation. The clock of the run-time is read from the world: \<open>now\<close> in
  milliseconds, \<open>rfc3339\<close> the formatting of a time.
\<close>

record 'w VectorCoordinator =
  retriever :: "string \<Rightarrow> 'w \<Rightarrow> (CombinedText list \<times> error option) exec \<times> 'w"
  apiClient :: "string \<Rightarrow> 'w \<Rightarrow> (EmbeddingResponse option \<times> error option) exec \<times> 'w"
  vectorStorage ::
    "VectorRecord list \<Rightarrow> 'w \<Rightarrow> (BatchWriteResult option \<times> error option) exec \<times> 'w"

record 'w Clock =
  now :: "'w \<Rightarrow> int"
  rfc3339 :: "int \<Rightarrow> string"

text \<open>The calls the coordinator makes on its collaborators, in order.\<close>

datatype Call = Retrieve string | Embed string | Store "VectorRecord list"

text \<open>
  The embedding loop \<open>for i, combinedText := range combinedTexts\<close>: a failed item is
  counted and the loop goes on. The response pointer is read after the error check.
\<close>

fun embedLoop ::
  "'w VectorCoordinator \<Rightarrow> 'w Clock \<Rightarrow> string \<Rightarrow> CombinedText list
     \<Rightarrow> VectorRecord list \<Rightarrow> ProcessingError list \<Rightarrow> ProcessingResult \<Rightarrow> Call list \<Rightarrow> 'w
     \<Rightarrow> (VectorRecord list \<times> ProcessingError list \<times> ProcessingResult) exec \<times> Call list \<times> 'w" where
  "embedLoop vc clock traceID [] vectorRecords embeddingErrors result calls w =
     (Returned (vectorRecords, embeddingErrors, result), calls, w)"
| "embedLoop vc clock traceID (combinedText # rest) vectorRecords embeddingErrors result calls w =
     (case apiClient vc (Text combinedText) w of
        (Panicked msg, w') \<Rightarrow> (Panicked msg, calls @ [Embed (Text combinedText)], w')
      | (Returned (embeddingResponse, Some err), w') \<Rightarrow>
          embedLoop vc clock traceID rest vectorRecords
            (embeddingErrors
               @ [\<lparr>Stage = ''embedding_generation'',
                   Message = ''failed to generate embedding for paper ''
                             @ CombinedText.PaperID combinedText,
                   Cause = Some err\<rparr>])
            (result\<lparr>FailedEmbeddings := FailedEmbeddings result + 1\<rparr>)
            (calls @ [Embed (Text combinedText)]) w'
      | (Returned (None, None), w') \<Rightarrow>
          (Panicked ''nil pointer dereference'', calls @ [Embed (Text combinedText)], w')
      | (Returned (Some embeddingResponse, None), w') \<Rightarrow>
          embedLoop vc clock traceID rest
            (vectorRecords
               @ [CreateVectorRecord (rfc3339 clock (now clock w'))
                    (CombinedText.PaperID combinedText) (Text combinedText) traceID
                    (EmbeddingResponse.Embedding embeddingResponse)
                    (EmbeddingResponse.ModelVersion embeddingResponse)
                    (now clock w' - now clock w)])
            embeddingErrors
            (result\<lparr>EmbeddingsGenerated := EmbeddingsGenerated result + 1\<rparr>)
            (calls @ [Embed (Text combinedText)]) w')"

text \<open>The final classification of \<open>processVectorization\<close>, from the three tallies.\<close>

definition classify :: "ProcessingResult \<Rightarrow> ProcessingResult" where
  "classify result =
     (if FailedEmbeddings result = 0 \<and> FailedStorage result = 0 then
        result\<lparr>Status := StatusCompleted\<rparr>
      else if VectorsStored result > 0 then
        result\<lparr>Status := StatusPartial\<rparr>
      else
        result\<lparr>Status := StatusFailed,
               ErrorMessage := ''all vectorization operations failed''\<rparr>)"

text \<open>
  \<open>processVectorization\<close>. The value is the Go pair (result pointer, error), the calls
  made on the collaborators, and the final world.
\<close>

definition processVectorization ::
  "'w VectorCoordinator \<Rightarrow> 'w Clock \<Rightarrow> string \<Rightarrow> 'w
     \<Rightarrow> (ProcessingResult option \<times> ProcessingError option) exec \<times> Call list \<times> 'w" where
  "processVectorization vc clock traceID w =
     (let startTime = now clock w;
          result0 = \<lparr>ProcessingResult.TraceID = traceID, Status = StatusStarted,
                      TotalPapers = 0, EmbeddingsGenerated = 0, VectorsStored = 0,
                      FailedEmbeddings = 0, FailedStorage = 0,
                      ProcessingResult.ProcessingTimeMs = 0, ErrorMessage = [],
                      Timestamp = rfc3339 clock (now clock w)\<rparr>
      in if traceID = [] then
           (let err = \<lparr>Stage = ''validation'', Message = ''traceID cannot be empty'',
                        Cause = None\<rparr>
            in (Returned (Some (result0\<lparr>Status := StatusFailed,
                                         ErrorMessage := ProcessingError_Error err\<rparr>),
                          Some err), [], w))
         else
           (case retriever vc traceID w of
              (Panicked msg, w1) \<Rightarrow> (Panicked msg, [Retrieve traceID], w1)
            | (Returned (combinedTexts, Some err), w1) \<Rightarrow>
                (let processingErr = \<lparr>Stage = ''data_retrieval'',
                         Message = ''failed to retrieve papers for vectorization'',
                         Cause = Some err\<rparr>
                 in (Returned (Some (result0\<lparr>Status := StatusFailed,
                         ErrorMessage := ProcessingError_Error processingErr,
                         ProcessingResult.ProcessingTimeMs := now clock w1 - startTime\<rparr>),
                       Some processingErr), [Retrieve traceID], w1))
            | (Returned (combinedTexts, None), w1) \<Rightarrow>
                (let result1 = result0\<lparr>Status := StatusInProgress,
                                        TotalPapers := int (length combinedTexts)\<rparr>
                 in if TotalPapers result1 = 0 then
                      (Returned (Some (result1\<lparr>Status := StatusCompleted,
                          ProcessingResult.ProcessingTimeMs := now clock w1 - startTime\<rparr>),
                        None), [Retrieve traceID], w1)
                    else
                      (case embedLoop vc clock traceID combinedTexts [] [] result1
                              [Retrieve traceID] w1 of
                         (Panicked msg, calls, w2) \<Rightarrow> (Panicked msg, calls, w2)
                       | (Returned (vectorRecords, embeddingErrors, result2), calls, w2) \<Rightarrow>
                           if length vectorRecords = 0 then
                             (let processingErr = \<lparr>Stage = ''embedding_generation'',
                                    Message = ''no embeddings were generated successfully'',
                                    Cause = None\<rparr>
                              in (Returned (Some (result2\<lparr>Status := StatusFailed,
                                      ErrorMessage := ProcessingError_Error processingErr,
                                      ProcessingResult.ProcessingTimeMs :=
                                        now clock w2 - startTime\<rparr>),
                                    Some processingErr), calls, w2))
                           else
                             (case vectorStorage vc vectorRecords w2 of
                                (Panicked msg, w3) \<Rightarrow>
                                  (Panicked msg, calls @ [Store vectorRecords], w3)
                              | (Returned (batchResult, Some err), w3) \<Rightarrow>
                                  (let processingErr = \<lparr>Stage = ''vector_storage'',
                                         Message = ''failed to store vector records'',
                                         Cause = Some err\<rparr>
                                   in (Returned (Some (result2\<lparr>Status := StatusFailed,
                                           ErrorMessage := ProcessingError_Error processingErr,
                                           ProcessingResult.ProcessingTimeMs :=
                                             now clock w3 - startTime\<rparr>),
                                         Some processingErr),
                                       calls @ [Store vectorRecords], w3))
                              | (Returned (None, None), w3) \<Rightarrow>
                                  (Panicked ''nil pointer dereference'',
                                   calls @ [Store vectorRecords], w3)
                              | (Returned (Some batchResult, None), w3) \<Rightarrow>
                                  (let result3 = classify (result2\<lparr>
                                         VectorsStored := SuccessCount batchResult,
                                         FailedStorage :=
                                           int (length (BatchWriteResult.FailedItems batchResult)),
                                         ProcessingResult.ProcessingTimeMs :=
                                           now clock w3 - startTime\<rparr>)
                                   in if Status result3 = StatusFailed then
                                        (Returned (Some result3,
                                           Some \<lparr>Stage = ''overall_processing'',
                                             Message = ''vectorization failed for traceID ''
                                               @ traceID @ '': '' @ ErrorMessage result3,
                                             Cause = None\<rparr>),
                                         calls @ [Store vectorRecords], w3)
                                      else if Status result3 = StatusPartial then
                                        (Returned (Some result3,
                                           Some \<lparr>Stage = ''partial_processing'',
                                             Message = ''partial vectorization failure for traceID ''
                                               @ traceID @ '': ''
                                               @ fmtInt (VectorsStored result3) @ ''/''
                                               @ fmtInt (TotalPapers result3)
                                               @ '' papers processed successfully'',
                                             Cause = None\<rparr>),
                                         calls @ [Store vectorRecords], w3)
                                      else
                                        (Returned (Some result3, None),
                                         calls @ [Store vectorRecords], w3)))))))"

text \<open>
  The production wiring of \<open>handleStepFunction\<close>: the storage collaborator is
  \<open>storage.NewVectorStorage\<close>, that is \<open>BatchStoreVectors\<close> on a table store; the world
  is the store's state.
\<close>

definition productionStorage ::
  "'i Marshal \<Rightarrow> ('s, 'i) VectorStorage \<Rightarrow> VectorRecord list \<Rightarrow> 's
     \<Rightarrow> (BatchWriteResult option \<times> error option) exec \<times> 's" where
  "productionStorage MarshalMap st records s =
     (case BatchStoreVectors MarshalMap st records s of (out, calls, s') \<Rightarrow> (out, s'))"

section \<open>Concrete inputs used to instantiate the theorems\<close>

definition examplePaper :: "string \<Rightarrow> string \<Rightarrow> Paper" where
  "examplePaper pid title =
     \<lparr>Paper.PaperID = pid, Source = ''arxiv'', Title = title, Abstract = [], Authors = [],
      PublishedDate = [], Categories = [], RawXML = [], TraceID = [], BatchTimestamp = [],
      ProcessingStatus = [], CreatedAt = [], UpdatedAt = []\<rparr>"

text \<open>
  A valid vector record, as \<open>createTestVectorRecord\<close> of the storage tests builds it, and
  three table stores whose state counts the calls received: one that writes everything,
  one that reports every item as unprocessed, and the mock of
  \<open>TestBatchStoreVectors_DynamoDBError\<close>, which answers \<open>(nil, error)\<close>.
\<close>

definition exampleVector :: "string \<Rightarrow> VectorRecord" where
  "exampleVector pid =
     CreateVectorRecord ''2024-01-01T00:00:00Z'' pid ''Test title. Test abstract.''
       ''test-trace-123'' [Num 1, Num 2, Num 3] ''v1.0'' 150"

definition acceptAll :: "(nat, string) BatchWriteClient" where
  "acceptAll s input = ((Some \<lparr>UnprocessedItems = []\<rparr>, None), s + 1)"

definition rejectAll :: "(nat, string) BatchWriteClient" where
  "rejectAll s input = ((Some \<lparr>UnprocessedItems = RequestItems input\<rparr>, None), s + 1)"

definition failHard :: "(nat, string) BatchWriteClient" where
  "failHard s input = ((None, Some ''DynamoDB service unavailable''), s + 1)"

definition idMarshal :: "string Marshal" where
  "idMarshal rec = Inr (VectorRecord.PaperID rec)"

definition paperMarshal :: "string PaperMarshal" where
  "paperMarshal paper = Inr (Paper.PaperID paper)"

text \<open>
  A table whose index answers every query with one paper and a next cursor; raw items are
  papers already, and \<open>TrimSpace\<close> has nothing to trim.
\<close>

definition exampleRetrieverPaper :: RetrieverPaper where
  "exampleRetrieverPaper =
     \<lparr>RetrieverPaper.PaperID = ''paper1'', Source = ''arxiv'', Title = ''Title 1'',
      Abstract = ''Abstract 1'', Authors = [], PublishedDate = [], Categories = [],
      TraceID = ''test-trace-123'', BatchTimestamp = []\<rparr>"

definition endlessPages :: "(nat, RetrieverPaper, nat) QueryClient" where
  "endlessPages s input =
     ((Some \<lparr>Items = [exampleRetrieverPaper], LastEvaluatedKey = Some s\<rparr>, None), s + 1)"

definition rawPapers :: "RetrieverPaper Unmarshal" where
  "rawPapers items = Inr items"

text \<open>
  Coordinators in the production wiring (vector storage on a store that writes
  everything), over a world that counts the store calls. The clock reads the world. The
  retriever of the first fails, as in \<open>TestProcessVectorization_DataRetrievalFailure\<close>;
  the second retrieves two texts and embeds both; the third retrieves three texts of which
  the one reading \<open>bad\<close> fails to embed.
\<close>

definition exampleClock :: "nat Clock" where
  "exampleClock = \<lparr>now = (\<lambda>w. int w), rfc3339 = fmtInt\<rparr>"

definition exampleEmbedding :: EmbeddingResponse where
  "exampleEmbedding =
     \<lparr>EmbeddingResponse.Embedding = [Num 1, Num 2, Num 3], ModelVersion = ''test-model-v1'',
      Dimension = 3, ProcessingTimeMs = 5\<rparr>"

definition exampleApiClient ::
  "string \<Rightarrow> nat \<Rightarrow> (EmbeddingResponse option \<times> error option) exec \<times> nat" where
  "exampleApiClient text w =
     (if text = ''bad'' then (Returned (None, Some ''API rate limit exceeded''), w)
      else (Returned (Some exampleEmbedding, None), w))"

definition exampleStorage ::
  "VectorRecord list \<Rightarrow> nat \<Rightarrow> (BatchWriteResult option \<times> error option) exec \<times> nat" where
  "exampleStorage =
     productionStorage idMarshal \<lparr>VectorStorage.client = acceptAll, tableName = ''vectors''\<rparr>"

definition failingRetrieval :: "nat VectorCoordinator" where
  "failingRetrieval =
     \<lparr>retriever = (\<lambda>traceID w. (Returned ([], Some ''database connection failed''), w)),
      apiClient = exampleApiClient, vectorStorage = exampleStorage\<rparr>"

definition twoPapers :: "nat VectorCoordinator" where
  "twoPapers =
     \<lparr>retriever = (\<lambda>traceID w.
        (Returned ([\<lparr>CombinedText.PaperID = ''paper1'', Text = ''Title 1. Abstract 1''\<rparr>,
                    \<lparr>CombinedText.PaperID = ''paper2'', Text = ''Title 2. Abstract 2''\<rparr>],
                   None), w)),
      apiClient = exampleApiClient, vectorStorage = exampleStorage\<rparr>"

definition oneBadPaper :: "nat VectorCoordinator" where
  "oneBadPaper =
     \<lparr>retriever = (\<lambda>traceID w.
        (Returned ([\<lparr>CombinedText.PaperID = ''paper1'', Text = ''Title 1. Abstract 1''\<rparr>,
                    \<lparr>CombinedText.PaperID = ''paper2'', Text = ''bad''\<rparr>,
                    \<lparr>CombinedText.PaperID = ''paper3'', Text = ''Title 3. Abstract 3''\<rparr>],
                   None), w)),
      apiClient = exampleApiClient, vectorStorage = exampleStorage\<rparr>"

text \<open>
  A store whose every page carries a next cursor and one item that does not unmarshal
  (\<open>None\<close>), with the unmarshalling that rejects such an item.
\<close>

definition malformedPages :: "(nat, RetrieverPaper option, nat) QueryClient" where
  "malformedPages s input = ((Some \<lparr>Items = [None], LastEvaluatedKey = Some s\<rparr>, None), s + 1)"

definition strictPapers :: "(RetrieverPaper option) Unmarshal" where
  "strictPapers items =
     (if filter (\<lambda>x. x = None) items = [] then Inr (map the items)
      else Inl ''UnmarshalTypeError: cannot unmarshal number into Go value of type string'')"

section \<open>Deduplication: first occurrence wins, and the counts partition the input\<close>

lemma keyAt_snoc: "k < length ps \<Longrightarrow> keyAt (ps @ [p]) k = keyAt ps k"
  by (simp add: keyAt_def nth_append)

lemma firstOccurrence_snoc: "k < length ps \<Longrightarrow> firstOccurrence (ps @ [p]) k = firstOccurrence ps k"
  by (simp add: firstOccurrence_def keyAt_def nth_append)

lemma keyAt_last: "keyAt (ps @ [p]) (length ps) = Paper.PaperID p"
  by (simp add: keyAt_def)

lemma firstOccurrence_last:
  "firstOccurrence (ps @ [p]) (length ps) = (Paper.PaperID p \<notin> set (map Paper.PaperID ps))"
  by (simp add: firstOccurrence_def keyAt_def)

lemma filter_upt_snoc_cong:
  assumes "\<And>k. k < n \<Longrightarrow> P k = Q k"
  shows "filter P [0..<Suc n] = filter Q [0..<n] @ (if P n then [n] else [])"
proof -
  have "filter P [0..<n] = filter Q [0..<n]"
    by (rule filter_cong) (use assms in auto)
  then show ?thesis by simp
qed

lemma retainedPositions_snoc:
  "retainedPositions (ps @ [p]) = retainedPositions ps @
     (if Paper.PaperID p \<noteq> [] \<and> Paper.PaperID p \<notin> set (map Paper.PaperID ps) then [length ps] else [])"
  unfolding retainedPositions_def
  using filter_upt_snoc_cong [of "length ps"
      "\<lambda>k. keyAt (ps @ [p]) k \<noteq> [] \<and> firstOccurrence (ps @ [p]) k"
      "\<lambda>k. keyAt ps k \<noteq> [] \<and> firstOccurrence ps k"]
  by (simp add: keyAt_snoc firstOccurrence_snoc keyAt_last firstOccurrence_last)

lemma duplicatePositions_snoc:
  "duplicatePositions (ps @ [p]) = duplicatePositions ps @
     (if Paper.PaperID p \<noteq> [] \<and> Paper.PaperID p \<in> set (map Paper.PaperID ps) then [length ps] else [])"
  unfolding duplicatePositions_def
  using filter_upt_snoc_cong [of "length ps"
      "\<lambda>k. keyAt (ps @ [p]) k \<noteq> [] \<and> \<not> firstOccurrence (ps @ [p]) k"
      "\<lambda>k. keyAt ps k \<noteq> [] \<and> \<not> firstOccurrence ps k"]
  by (simp add: keyAt_snoc firstOccurrence_snoc keyAt_last firstOccurrence_last)

lemma invalidPositions_snoc:
  "invalidPositions (ps @ [p]) = invalidPositions ps @
     (if Paper.PaperID p = [] then [length ps] else [])"
  unfolding invalidPositions_def
  using filter_upt_snoc_cong [of "length ps"
      "\<lambda>k. keyAt (ps @ [p]) k = []" "\<lambda>k. keyAt ps k = []"]
  by (simp add: keyAt_snoc keyAt_last)

lemma retainedPositions_bound: "k \<in> set (retainedPositions ps) \<Longrightarrow> k < length ps"
  by (simp add: retainedPositions_def)

lemma map_nth_retained_snoc:
  "map ((!) (ps @ [p])) (retainedPositions ps) = map ((!) ps) (retainedPositions ps)"
  by (rule map_cong) (auto simp: nth_append dest: retainedPositions_bound)

lemma dedup_loop_inv:
  "dedupInv stats0 ps
     (foldl dedupStep \<lparr>seen = (\<lambda>k. False), deduplicated = [], stats = stats0\<rparr> ps)"
proof (induction ps rule: rev_induct)
  case Nil
  show ?case
    by (simp add: dedupInv_def retainedPositions_def duplicatePositions_def invalidPositions_def)
next
  case (snoc p ps)
  then show ?case
    by (auto simp: dedupInv_def dedupStep_def retainedPositions_snoc duplicatePositions_snoc
        invalidPositions_snoc map_nth_retained_snoc)
qed

lemma DeduplicateWithStats_eq:
  "DeduplicateWithStats papers =
     (map ((!) papers) (retainedPositions papers),
      \<lparr>OriginalCount = int (length papers),
       UniqueCount = int (length (retainedPositions papers)),
       DuplicateCount = int (length (duplicatePositions papers)),
       InvalidCount = int (length (invalidPositions papers))\<rparr>)"
proof (cases "papers = []")
  case True
  then show ?thesis
    by (simp add: DeduplicateWithStats_def retainedPositions_def duplicatePositions_def
        invalidPositions_def)
next
  case False
  define stats0 where "stats0 = \<lparr>OriginalCount = int (length papers), UniqueCount = 0,
                     DuplicateCount = 0, InvalidCount = 0\<rparr>"
  define st where "st = foldl dedupStep \<lparr>seen = (\<lambda>k. False), deduplicated = [], stats = stats0\<rparr> papers"
  have inv: "dedupInv stats0 papers st"
    unfolding st_def by (rule dedup_loop_inv)
  have res: "DeduplicateWithStats papers =
      (deduplicated st, (stats st)\<lparr>UniqueCount := int (length (deduplicated st))\<rparr>)"
    using False by (simp add: DeduplicateWithStats_def Let_def st_def stats0_def)
  show ?thesis
    unfolding res using inv
    by (simp add: dedupInv_def stats0_def DeduplicationStats.equality)
qed

lemma positions_partition:
  "length (retainedPositions ps) + length (duplicatePositions ps) + length (invalidPositions ps)
     = length ps"
proof -
  let ?ne = "\<lambda>k. keyAt ps k \<noteq> []"
  let ?xs = "filter ?ne [0..<length ps]"
  have a: "retainedPositions ps = filter (firstOccurrence ps) ?xs"
    by (simp add: retainedPositions_def conj_commute)
  have b: "duplicatePositions ps = filter (\<lambda>k. \<not> firstOccurrence ps k) ?xs"
    by (simp add: duplicatePositions_def conj_commute)
  have c: "invalidPositions ps = filter (\<lambda>k. \<not> ?ne k) [0..<length ps]"
    by (simp add: invalidPositions_def)
  have "length (retainedPositions ps) + length (duplicatePositions ps) = length ?xs"
    unfolding a b by (rule sum_length_filter_compl)
  moreover have "length ?xs + length (invalidPositions ps) = length [0..<length ps]"
    unfolding c by (rule sum_length_filter_compl)
  ultimately show ?thesis by simp
qed

lemma invalidPositions_length:
  "length (invalidPositions ps) = length (filter (\<lambda>p. Paper.PaperID p = []) ps)"
proof -
  have "filter (\<lambda>p. Paper.PaperID p = []) ps
          = filter (\<lambda>p. Paper.PaperID p = []) (map ((!) ps) [0..<length ps])"
    by (simp add: map_nth)
  also have "\<dots> = map ((!) ps) (invalidPositions ps)"
    by (simp add: filter_map invalidPositions_def keyAt_def comp_def)
  finally show ?thesis by simp
qed

lemma retained_keys_nonempty:
  "filter (\<lambda>p. Paper.PaperID p = []) (map ((!) ps) (retainedPositions ps)) = []"
  by (simp add: filter_map retainedPositions_def keyAt_def comp_def filter_empty_conv)

lemma firstOccurrence_iff:
  assumes "k \<le> length ps"
  shows "firstOccurrence ps k \<longleftrightarrow> (\<forall>h<k. Paper.PaperID (ps ! h) \<noteq> Paper.PaperID (ps ! k))"
proof -
  have "set (take k ps) = (!) ps ` {0..<k}"
    using nth_image [OF assms] by simp
  then have "set (map Paper.PaperID (take k ps)) = (\<lambda>h. Paper.PaperID (ps ! h)) ` {0..<k}"
    by (simp add: image_image)
  then have "firstOccurrence ps k \<longleftrightarrow>
      Paper.PaperID (ps ! k) \<notin> (\<lambda>h. Paper.PaperID (ps ! h)) ` {0..<k}"
    by (simp add: firstOccurrence_def keyAt_def)
  also have "\<dots> \<longleftrightarrow> (\<forall>h<k. Paper.PaperID (ps ! h) \<noteq> Paper.PaperID (ps ! k))"
    unfolding image_iff Bex_def by (metis atLeastLessThan_iff zero_le)
  finally show ?thesis .
qed

lemma retainedPositions_sorted: "sorted_wrt (<) (retainedPositions ps)"
  unfolding retainedPositions_def by (rule sorted_wrt_filter) simp

lemma dedupStep_invalid:
  "Paper.PaperID p = [] \<Longrightarrow>
     seen (dedupStep st p) = seen st \<and> deduplicated (dedupStep st p) = deduplicated st"
  by (simp add: dedupStep_def)

lemma dedupStep_cong:
  "seen st = seen st' \<Longrightarrow> deduplicated st = deduplicated st' \<Longrightarrow>
     seen (dedupStep st p) = seen (dedupStep st' p) \<and>
     deduplicated (dedupStep st p) = deduplicated (dedupStep st' p)"
  by (simp add: dedupStep_def)

lemma dedup_skips_invalid:
  "seen st = seen st' \<Longrightarrow> deduplicated st = deduplicated st' \<Longrightarrow>
     seen (foldl dedupStep st ps) =
       seen (foldl dedupStep st' (filter (\<lambda>p. Paper.PaperID p \<noteq> []) ps)) \<and>
     deduplicated (foldl dedupStep st ps) =
       deduplicated (foldl dedupStep st' (filter (\<lambda>p. Paper.PaperID p \<noteq> []) ps))"
proof (induction ps arbitrary: st st')
  case Nil
  then show ?case by simp
next
  case (Cons p ps)
  show ?case
  proof (cases "Paper.PaperID p = []")
    case True
    have "seen (dedupStep st p) = seen st'" "deduplicated (dedupStep st p) = deduplicated st'"
      using dedupStep_invalid [OF True, of st] Cons.prems by simp_all
    from Cons.IH [OF this] show ?thesis using True by simp
  next
    case False
    have "seen (dedupStep st p) = seen (dedupStep st' p)"
         "deduplicated (dedupStep st p) = deduplicated (dedupStep st' p)"
      using dedupStep_cong [OF Cons.prems, of p] by blast+
    from Cons.IH [OF this] show ?thesis using False by simp
  qed
qed

lemma DeduplicateWithStats_fst:
  "fst (DeduplicateWithStats papers) =
     deduplicated (foldl dedupStep
        \<lparr>seen = (\<lambda>k. False), deduplicated = [],
         stats = \<lparr>OriginalCount = n, UniqueCount = 0, DuplicateCount = 0, InvalidCount = 0\<rparr>\<rparr>
        papers)"
proof (cases "papers = []")
  case True
  then show ?thesis by (simp add: DeduplicateWithStats_def)
next
  case False
  let ?s = "\<lambda>m. \<lparr>seen = (\<lambda>k. False), deduplicated = [],
         stats = \<lparr>OriginalCount = m, UniqueCount = 0, DuplicateCount = 0, InvalidCount = 0\<rparr>\<rparr>"
  have "deduplicated (foldl dedupStep (?s (int (length papers))) papers) =
        deduplicated (foldl dedupStep (?s n) (filter (\<lambda>p. Paper.PaperID p \<noteq> []) papers))"
    using dedup_skips_invalid [of "?s (int (length papers))" "?s n" papers] by simp
  moreover have "deduplicated (foldl dedupStep (?s n) papers) =
        deduplicated (foldl dedupStep (?s n) (filter (\<lambda>p. Paper.PaperID p \<noteq> []) papers))"
    using dedup_skips_invalid [of "?s n" "?s n" papers] by simp
  ultimately show ?thesis
    using False by (simp add: DeduplicateWithStats_def Let_def)
qed

lemma DeduplicateWithStats_filter:
  "fst (DeduplicateWithStats (filter (\<lambda>p. Paper.PaperID p \<noteq> []) papers)) =
     fst (DeduplicateWithStats papers)"
proof -
  let ?s = "\<lparr>seen = (\<lambda>k. False), deduplicated = [],
         stats = \<lparr>OriginalCount = 0, UniqueCount = 0, DuplicateCount = 0, InvalidCount = 0\<rparr>\<rparr>"
  have "deduplicated (foldl dedupStep ?s papers) =
        deduplicated (foldl dedupStep ?s (filter (\<lambda>p. Paper.PaperID p \<noteq> []) papers))"
    using dedup_skips_invalid [of ?s ?s papers] by simp
  then show ?thesis
    by (simp add: DeduplicateWithStats_fst [where n = 0])
qed

text \<open>
  Claim C3, amended. Let a non-empty primary key \<open>K\<close> occur at the positions \<open>i < j\<close> of
  the input, where \<open>i\<close> is the first position that holds \<open>K\<close>. Then
  \<open>DeduplicateWithStats\<close> retains the record at position \<open>i\<close>, drops the record at
  position \<open>j\<close> and counts it as a duplicate. The records returned are those at the
  retained positions, in input order, and the duplicate count is the number of duplicate
  positions.
\<close>

theorem C3_first_occurrence_wins:
  assumes "i < j" and "j < length papers"
    and "Paper.PaperID (papers ! i) = K" and "Paper.PaperID (papers ! j) = K"
    and "K \<noteq> []"
    and "\<forall>h<i. Paper.PaperID (papers ! h) \<noteq> K"
  shows "fst (DeduplicateWithStats papers) = map ((!) papers) (retainedPositions papers) \<and>
         sorted_wrt (<) (retainedPositions papers) \<and>
         i \<in> set (retainedPositions papers) \<and>
         j \<notin> set (retainedPositions papers) \<and>
         j \<in> set (duplicatePositions papers) \<and>
         DuplicateCount (snd (DeduplicateWithStats papers)) =
           int (length (duplicatePositions papers))"
proof -
  have ij: "i < length papers" "i \<le> length papers" "j \<le> length papers"
    using assms(1,2) by simp_all
  have ki: "keyAt papers i = K" and kj: "keyAt papers j = K"
    using assms(3,4) by (simp_all only: keyAt_def)
  have fi: "firstOccurrence papers i"
    unfolding firstOccurrence_iff [OF ij(2)] assms(3) using assms(6) by blast
  have fj: "\<not> firstOccurrence papers j"
    unfolding firstOccurrence_iff [OF ij(3)] assms(4) using assms(1,3) by blast
  have "i \<in> set (retainedPositions papers)"
    unfolding retainedPositions_def using ij(1) ki fi assms(5) by simp
  moreover have "j \<notin> set (retainedPositions papers)"
    unfolding retainedPositions_def using fj by simp
  moreover have "j \<in> set (duplicatePositions papers)"
    unfolding duplicatePositions_def using assms(2) kj fj assms(5) by simp
  moreover have "fst (DeduplicateWithStats papers) = map ((!) papers) (retainedPositions papers)"
    by (simp add: DeduplicateWithStats_eq)
  moreover have "DuplicateCount (snd (DeduplicateWithStats papers)) =
           int (length (duplicatePositions papers))"
    by (simp add: DeduplicateWithStats_eq)
  ultimately show ?thesis
    using retainedPositions_sorted [of papers] by blast
qed

text \<open>
  The same key twice: the first record is returned, the second is the one duplicate.
\<close>

theorem C3_witness:
  "fst (DeduplicateWithStats [examplePaper ''k1'' ''first'', examplePaper ''k1'' ''second''])
     = [examplePaper ''k1'' ''first''] \<and>
   DuplicateCount (snd (DeduplicateWithStats
     [examplePaper ''k1'' ''first'', examplePaper ''k1'' ''second''])) = 1"
  using C3_first_occurrence_wins [of 0 1
      "[examplePaper ''k1'' ''first'', examplePaper ''k1'' ''second'']" "''k1''"]
  by (simp add: examplePaper_def retainedPositions_def duplicatePositions_def keyAt_def
      firstOccurrence_def)

text \<open>
  Claim C3 as stated takes any two positions \<open>i < j\<close> of \<open>K\<close>. With the same key at
  the positions 0, 1 and 2, the pair \<open>i = 1\<close>, \<open>j = 2\<close> is such a pair, and the record at
  position 1 is itself dropped: only the record at position 0 is returned.
\<close>

theorem C3_counterexample:
  "(1::nat) < 2 \<and>
   Paper.PaperID ([examplePaper ''k1'' ''first'', examplePaper ''k1'' ''second'',
                   examplePaper ''k1'' ''third''] ! 1) = ''k1'' \<and>
   Paper.PaperID ([examplePaper ''k1'' ''first'', examplePaper ''k1'' ''second'',
                   examplePaper ''k1'' ''third''] ! 2) = ''k1'' \<and>
   fst (DeduplicateWithStats [examplePaper ''k1'' ''first'', examplePaper ''k1'' ''second'',
                              examplePaper ''k1'' ''third''])
     = [examplePaper ''k1'' ''first''] \<and>
   [examplePaper ''k1'' ''first'', examplePaper ''k1'' ''second'',
    examplePaper ''k1'' ''third''] ! 1
     \<notin> set (fst (DeduplicateWithStats [examplePaper ''k1'' ''first'',
                       examplePaper ''k1'' ''second'', examplePaper ''k1'' ''third'']))"
  by (simp add: DeduplicateWithStats_def dedupStep_def examplePaper_def)

text \<open>
  Claim C4. For every input, the empty one included, the statistics of
  \<open>DeduplicateWithStats\<close> satisfy unique + duplicate + invalid = original; the original
  count is the length of the input, the invalid count is the number of records with an
  empty primary key, and the unique count is the length of the returned list. No returned
  record has an empty key, and removing the empty-key records from the input beforehand
  does not change the returned list (they never reach the \<open>seen\<close> check).
\<close>

theorem C4_dedup_partition:
  "UniqueCount (snd (DeduplicateWithStats papers)) +
     DuplicateCount (snd (DeduplicateWithStats papers)) +
     InvalidCount (snd (DeduplicateWithStats papers)) =
       OriginalCount (snd (DeduplicateWithStats papers)) \<and>
   OriginalCount (snd (DeduplicateWithStats papers)) = int (length papers) \<and>
   InvalidCount (snd (DeduplicateWithStats papers)) =
     int (length (filter (\<lambda>p. Paper.PaperID p = []) papers)) \<and>
   UniqueCount (snd (DeduplicateWithStats papers)) =
     int (length (fst (DeduplicateWithStats papers))) \<and>
   filter (\<lambda>p. Paper.PaperID p = []) (fst (DeduplicateWithStats papers)) = [] \<and>
   fst (DeduplicateWithStats (filter (\<lambda>p. Paper.PaperID p \<noteq> []) papers)) =
     fst (DeduplicateWithStats papers)"
proof -
  have "int (length (retainedPositions papers)) + int (length (duplicatePositions papers)) +
        int (length (invalidPositions papers)) = int (length papers)"
    using positions_partition [of papers] by linarith
  then have "UniqueCount (snd (DeduplicateWithStats papers)) +
     DuplicateCount (snd (DeduplicateWithStats papers)) +
     InvalidCount (snd (DeduplicateWithStats papers)) =
       OriginalCount (snd (DeduplicateWithStats papers))"
    by (simp add: DeduplicateWithStats_eq)
  moreover have "filter (\<lambda>p. Paper.PaperID p = []) (fst (DeduplicateWithStats papers)) = []"
    using retained_keys_nonempty [of papers] by (simp add: DeduplicateWithStats_eq)
  moreover have "InvalidCount (snd (DeduplicateWithStats papers)) =
     int (length (filter (\<lambda>p. Paper.PaperID p = []) papers))"
    by (simp add: DeduplicateWithStats_eq invalidPositions_length)
  moreover have "OriginalCount (snd (DeduplicateWithStats papers)) = int (length papers)"
    "UniqueCount (snd (DeduplicateWithStats papers)) =
     int (length (fst (DeduplicateWithStats papers)))"
    by (simp_all add: DeduplicateWithStats_eq)
  ultimately show ?thesis
    using DeduplicateWithStats_filter [of papers] by blast
qed

section \<open>Vector storage: accounting, store calls, and the returned error\<close>

lemma validate_loop:
  "foldl validateStep (result, vs) records =
     (result\<lparr>BatchWriteResult.FailedItems := BatchWriteResult.FailedItems result
                @ filter (\<lambda>r. validateVectorRecord r \<noteq> None) records,
             Errors := Errors result
                @ map invalidError (filter (\<lambda>r. validateVectorRecord r \<noteq> None) records)\<rparr>,
      vs @ filter (\<lambda>r. validateVectorRecord r = None) records)"
proof (induction records arbitrary: result vs)
  case Nil
  show ?case by simp
next
  case (Cons r rs)
  show ?case
  proof (cases "validateVectorRecord r")
    case None
    then have "validateStep (result, vs) r = (result, vs @ [r])"
      by (simp add: validateStep_def)
    then show ?thesis using None Cons.IH by simp
  next
    case (Some e)
    then have "validateStep (result, vs) r =
        (result\<lparr>BatchWriteResult.FailedItems := BatchWriteResult.FailedItems result @ [r],
                Errors := Errors result @ [invalidError r]\<rparr>, vs)"
      by (simp add: validateStep_def invalidError_def)
    then show ?thesis using Some Cons.IH by simp
  qed
qed

lemma marshal_loop:
  "foldl (marshalStep MarshalMap) (result, ws) vs =
     (result\<lparr>BatchWriteResult.FailedItems := BatchWriteResult.FailedItems result @ filter (\<lambda>r. isl (MarshalMap r)) vs,
             Errors := Errors result
                @ map (marshalError MarshalMap) (filter (\<lambda>r. isl (MarshalMap r)) vs)\<rparr>,
      ws @ map (\<lambda>r. PutRequest (projr (MarshalMap r))) (filter (\<lambda>r. \<not> isl (MarshalMap r)) vs))"
proof (induction vs arbitrary: result ws)
  case Nil
  show ?case by simp
next
  case (Cons r rs)
  show ?case
  proof (cases "MarshalMap r")
    case (Inl e)
    then have "marshalStep MarshalMap (result, ws) r =
        (result\<lparr>BatchWriteResult.FailedItems := BatchWriteResult.FailedItems result @ [r],
                Errors := Errors result @ [marshalError MarshalMap r]\<rparr>, ws)"
      by (simp add: marshalStep_def marshalError_def)
    then show ?thesis using Inl Cons.IH by simp
  next
    case (Inr item)
    then have "marshalStep MarshalMap (result, ws) r = (result, ws @ [PutRequest item])"
      by (simp add: marshalStep_def)
    then show ?thesis using Inr Cons.IH by simp
  qed
qed

lemma addUnprocessed_nonneg:
  "0 \<le> startIndex \<Longrightarrow>
     addUnprocessed startIndex u i valid failed =
       Returned (failed @ take (u - i) (drop (nat startIndex + i) valid))"
proof (induction startIndex u i valid failed rule: addUnprocessed.induct)
  case (1 startIndex u i valid failed)
  show ?case
  proof (cases "i < u \<and> startIndex + int i < int (length valid)")
    case True
    then have lt: "nat startIndex + i < length valid" using "1.prems" by linarith
    have nn: "\<not> startIndex + int i < 0" using "1.prems" by simp
    have idx: "nat (startIndex + int i) = nat startIndex + i" using "1.prems" by linarith
    have "take (u - i) (drop (nat startIndex + i) valid) =
          valid ! (nat startIndex + i) # take (u - (i + 1)) (drop (nat startIndex + (i + 1)) valid)"
    proof -
      have "drop (nat startIndex + i) valid =
            valid ! (nat startIndex + i) # drop (Suc (nat startIndex + i)) valid"
        using lt by (simp add: Cons_nth_drop_Suc)
      moreover have "u - i = Suc (u - (i + 1))" using True by linarith
      ultimately show ?thesis by simp
    qed
    then show ?thesis
      using True nn idx "1.IH" [OF True nn "1.prems"]
      by (subst addUnprocessed.simps) simp
  next
    case False
    have a: "addUnprocessed startIndex u i valid failed = Returned failed"
      by (subst addUnprocessed.simps) (simp only: False if_False)
    have "u \<le> i \<or> length valid \<le> nat startIndex + i"
      using False "1.prems" by linarith
    then have "take (u - i) (drop (nat startIndex + i) valid) = []"
      by auto
    then show ?thesis
      using a by simp
  qed
qed

lemma addUnprocessed_negative:
  "startIndex < 0 \<Longrightarrow> 0 < u \<Longrightarrow>
     addUnprocessed startIndex u 0 valid failed = Panicked ''index out of range''"
  by (subst addUnprocessed.simps) simp

lemma valid_invalid_length: "length (validOf rs) + length (invalidOf rs) = length rs"
  unfolding validOf_def invalidOf_def by (rule sum_length_filter_compl)

lemma requests_unmarshalled_length:
  "length (requestsOf M vs) + length (unmarshalledOf M vs) = length vs"
  unfolding requestsOf_def unmarshalledOf_def
  using sum_length_filter_compl [of "\<lambda>r. isl (M r)" vs] by simp

lemma processBatch_unfold:
  "processBatch MarshalMap st records s =
     (let result1 = \<lparr>SuccessCount = 0, BatchWriteResult.FailedItems = invalidOf records,
                      Errors = map invalidError (invalidOf records)\<rparr>;
          validRecords = validOf records
      in if validRecords = [] then (Returned (Some result1, None), [], s)
         else
           let result2 = \<lparr>SuccessCount = 0,
                           BatchWriteResult.FailedItems = invalidOf records @ unmarshalledOf MarshalMap validRecords,
                           Errors = map invalidError (invalidOf records)
                             @ map (marshalError MarshalMap) (unmarshalledOf MarshalMap validRecords)\<rparr>;
               writeRequests = requestsOf MarshalMap validRecords
           in if writeRequests = [] then (Returned (Some result2, None), [], s)
              else
                let input = \<lparr>RequestItems = [(VectorStorage.tableName st, writeRequests)]\<rparr>
                in case VectorStorage.client st s input of
                    ((None, err), s') \<Rightarrow> (Panicked ''nil pointer dereference'', [input], s')
                  | ((Some out, Some e), s') \<Rightarrow>
                      (Returned
                         (Some (result2\<lparr>BatchWriteResult.FailedItems := BatchWriteResult.FailedItems result2 @ validRecords,
                                        Errors := Errors result2 @ [''batch write failed: '' @ e]\<rparr>),
                          None),
                       [input], s')
                  | ((Some out, None), s') \<Rightarrow>
                      (let unprocessedCount =
                             (case map_of (UnprocessedItems out) (VectorStorage.tableName st) of
                                Some unprocessedItems \<Rightarrow> length unprocessedItems
                              | None \<Rightarrow> 0);
                           result3 = result2\<lparr>SuccessCount :=
                                       int (length writeRequests) - int unprocessedCount\<rparr>
                       in if unprocessedCount > 0 then
                            (case addUnprocessed (SuccessCount result3) unprocessedCount 0
                                    validRecords (BatchWriteResult.FailedItems result3) of
                               Panicked msg \<Rightarrow> (Panicked msg, [input], s')
                             | Returned failed \<Rightarrow>
                                 (Returned (Some (result3\<lparr>BatchWriteResult.FailedItems := failed\<rparr>), None),
                                  [input], s'))
                          else (Returned (Some result3, None), [input], s')))"
  by (simp add: processBatch_def validate_loop marshal_loop Let_def validOf_def invalidOf_def
      requestsOf_def unmarshalledOf_def split: prod.splits option.splits)

lemma processBatch_no_error:
  assumes "processBatch MarshalMap st records s = (Returned (res, err), cs, s')"
  shows "err = None \<and> (\<exists>r. res = Some r)"
  using assms
  by (auto simp: processBatch_unfold Let_def split: if_splits prod.splits option.splits exec.splits)

lemma processBatch_calls:
  assumes "processBatch MarshalMap st records s = (out, cs, s')"
  shows "length cs \<le> 1 \<and> (\<forall>c\<in>set cs. 0 < itemCount c \<and> itemCount c \<le> length records)"
proof -
  have "length (requestsOf MarshalMap (validOf records)) \<le> length records"
    using requests_unmarshalled_length [of MarshalMap "validOf records"]
      valid_invalid_length [of records] by linarith
  then show ?thesis
    using assms
    by (auto simp: processBatch_unfold Let_def itemCount_def
        split: if_splits prod.splits option.splits exec.splits)
qed

lemma marshalsAll_sub:
  "marshalsAll M records \<Longrightarrow> set vs \<subseteq> set records \<Longrightarrow> unmarshalledOf M vs = []"
  by (auto simp: marshalsAll_def unmarshalledOf_def filter_empty_conv)

lemma marshalsAll_valid: "marshalsAll M records \<Longrightarrow> unmarshalledOf M (validOf records) = []"
  by (rule marshalsAll_sub) (auto simp: validOf_def)

lemma addUnprocessed_Returned:
  assumes "addUnprocessed startIndex u 0 valid failed = Returned x" and "0 < u"
  shows "0 \<le> startIndex \<and> x = failed @ take u (drop (nat startIndex) valid)"
proof (cases "startIndex < 0")
  case True
  then show ?thesis using assms addUnprocessed_negative [of startIndex u valid failed] by simp
next
  case False
  then show ?thesis using assms addUnprocessed_nonneg [of startIndex u 0 valid failed] by simp
qed

lemma processBatch_accounting_ge:
  assumes "processBatch MarshalMap st records s = (Returned (Some r, err), cs, s')"
  shows "0 \<le> SuccessCount r \<and> int (length records) \<le> SuccessCount r + int (length (BatchWriteResult.FailedItems r))"
proof -
  have a: "length (validOf records) + length (invalidOf records) = length records"
    by (rule valid_invalid_length)
  have b: "length (requestsOf MarshalMap (validOf records))
            + length (unmarshalledOf MarshalMap (validOf records)) = length (validOf records)"
    by (rule requests_unmarshalled_length)
  show ?thesis
    using assms a b
    by (auto simp: processBatch_unfold Let_def dest!: addUnprocessed_Returned
        split: if_splits prod.splits option.splits exec.splits)
qed

lemma processBatch_accounting_eq:
  assumes "processBatch MarshalMap st records s = (Returned (Some r, err), cs, s')"
    and "marshalsAll MarshalMap records"
  shows "SuccessCount r + int (length (BatchWriteResult.FailedItems r)) = int (length records)"
proof -
  have a: "length (validOf records) + length (invalidOf records) = length records"
    by (rule valid_invalid_length)
  have b: "length (requestsOf MarshalMap (validOf records)) = length (validOf records)"
    using requests_unmarshalled_length [of MarshalMap "validOf records"]
      marshalsAll_valid [OF assms(2)] by simp
  show ?thesis
    using assms(1) a b marshalsAll_valid [OF assms(2)]
    by (auto simp: processBatch_unfold Let_def dest!: addUnprocessed_Returned
        split: if_splits prod.splits option.splits exec.splits)
qed

lemma processBatch_no_panic:
  assumes "wellBehaved st"
  shows "\<exists>r cs s'. processBatch MarshalMap st records s = (Returned (Some r, None), cs, s')"
proof -
  let ?input = "\<lparr>RequestItems = [(VectorStorage.tableName st, requestsOf MarshalMap (validOf records))]\<rparr>"
  have wb: "case VectorStorage.client st s ?input of
        ((None, err), s') \<Rightarrow> False
      | ((Some out, err), s') \<Rightarrow>
          (case map_of (UnprocessedItems out) (VectorStorage.tableName st) of
             Some unprocessedItems \<Rightarrow> length unprocessedItems \<le> itemCount ?input
           | None \<Rightarrow> True)"
    using spec [OF spec [OF assms [unfolded wellBehaved_def], of s], of ?input] .
  show ?thesis
    using wb
    by (auto simp: processBatch_unfold Let_def addUnprocessed_nonneg itemCount_def
        split: if_splits prod.splits option.splits exec.splits)
qed

lemma processBatch_one_call:
  assumes "processBatch MarshalMap st records s = (out, cs, s')"
    and "marshalsAll MarshalMap records" and "invalidOf records = []" and "records \<noteq> []"
  shows "length cs = 1"
proof -
  have a: "length (validOf records) = length records"
    using valid_invalid_length [of records] assms(3) by simp
  have b: "length (requestsOf MarshalMap (validOf records)) = length (validOf records)"
    using requests_unmarshalled_length [of MarshalMap "validOf records"]
      marshalsAll_valid [OF assms(2)] by simp
  have "validOf records \<noteq> []" "requestsOf MarshalMap (validOf records) \<noteq> []"
    using a b assms(4) by auto
  then show ?thesis
    using assms(1)
    by (auto simp: processBatch_unfold Let_def
        split: if_splits prod.splits option.splits exec.splits)
qed

lemma chunk_eq:
  assumes "i < length records"
  shows "take ((if i + batchSize > length records then length records else i + batchSize) - i)
           (drop i records) = take batchSize (drop i records)"
  using assms by (auto simp: batchSize_def)

lemma BatchStoreLoop_stop:
  "\<not> i < length records \<Longrightarrow>
     BatchStoreLoop M st records i result calls s = (Returned result, calls, s)"
  by (subst BatchStoreLoop.simps) simp

lemma BatchStoreLoop_panic:
  assumes "i < length records"
    and "processBatch M st (take batchSize (drop i records)) s = (Panicked msg, cs, s')"
  shows "BatchStoreLoop M st records i result calls s = (Panicked msg, calls @ cs, s')"
  using assms by (subst BatchStoreLoop.simps) (simp add: Let_def chunk_eq del: One_nat_def)

lemma BatchStoreLoop_step:
  assumes "i < length records"
    and "processBatch M st (take batchSize (drop i records)) s = (Returned (Some br, None), cs, s')"
  shows "BatchStoreLoop M st records i result calls s =
         BatchStoreLoop M st records (i + batchSize) (mergeBatch result br) (calls @ cs) s'"
  using assms
  by (subst BatchStoreLoop.simps) (simp add: Let_def chunk_eq mergeBatch_def)

lemma BatchStoreLoop_rule:
  assumes base: "\<And>i result calls s. \<not> i < length records \<Longrightarrow>
            P i result calls s (Returned result, calls, s)"
    and panic: "\<And>i result calls s msg cs s'. i < length records \<Longrightarrow>
            processBatch M st (take batchSize (drop i records)) s = (Panicked msg, cs, s') \<Longrightarrow>
            P i result calls s (Panicked msg, calls @ cs, s')"
    and step: "\<And>i result calls s br cs s' out. i < length records \<Longrightarrow>
            processBatch M st (take batchSize (drop i records)) s
              = (Returned (Some br, None), cs, s') \<Longrightarrow>
            P (i + batchSize) (mergeBatch result br) (calls @ cs) s' out \<Longrightarrow>
            P i result calls s out"
  shows "P i result calls s (BatchStoreLoop M st records i result calls s)"
proof (induction "length records - i" arbitrary: i result calls s rule: less_induct)
  case less
  show ?case
  proof (cases "i < length records")
    case False
    then show ?thesis by (simp add: BatchStoreLoop_stop base)
  next
    case True
    obtain out cs s' where pb:
      "processBatch M st (take batchSize (drop i records)) s = (out, cs, s')"
      by (metis prod_cases3)
    show ?thesis
    proof (cases out)
      case (Panicked msg)
      then show ?thesis
        using True pb by (simp add: BatchStoreLoop_panic panic)
    next
      case (Returned pr)
      obtain res err where pr: "pr = (res, err)" by (cases pr)
      from processBatch_no_error [of M st _ s res err cs s'] pb Returned pr
      obtain br where br: "res = Some br" "err = None" by auto
      have pb': "processBatch M st (take batchSize (drop i records)) s
                   = (Returned (Some br, None), cs, s')"
        using pb Returned pr br by simp
      have "length records - (i + batchSize) < length records - i"
        using True by (simp add: batchSize_def)
      from less [OF this]
      have "P (i + batchSize) (mergeBatch result br) (calls @ cs) s'
              (BatchStoreLoop M st records (i + batchSize) (mergeBatch result br) (calls @ cs) s')" .
      from step [OF True pb' this] show ?thesis
        by (simp add: BatchStoreLoop_step [OF True pb'])
    qed
  qed
qed

lemma chunk_length:
  "length (take batchSize (drop i records)) + (length records - (i + batchSize)) = length records - i"
  by (auto simp: batchSize_def min_def)

lemma marshalsAll_chunk:
  "marshalsAll M records \<Longrightarrow> marshalsAll M (take n (drop i records))"
  by (auto simp: marshalsAll_def filter_empty_conv dest!: in_set_takeD in_set_dropD)

lemma invalidOf_chunk:
  "invalidOf records = [] \<Longrightarrow> invalidOf (take n (drop i records)) = []"
  by (auto simp: invalidOf_def filter_empty_conv dest!: in_set_takeD in_set_dropD)

lemma BatchStoreLoop_accounting_eq:
  assumes m: "marshalsAll M records"
  shows "BatchStoreLoop M st records i result calls s = (Returned r, cs', s'') \<longrightarrow>
         SuccessCount r + int (length (BatchWriteResult.FailedItems r)) =
           SuccessCount result + int (length (BatchWriteResult.FailedItems result)) + int (length records - i)"
proof (rule BatchStoreLoop_rule [where P = "\<lambda>i result calls s out.
      out = (Returned r, cs', s'') \<longrightarrow>
         SuccessCount r + int (length (BatchWriteResult.FailedItems r)) =
           SuccessCount result + int (length (BatchWriteResult.FailedItems result)) + int (length records - i)"])
  fix i result calls s
  assume "\<not> i < length records"
  then show "(Returned result, calls, s) = (Returned r, cs', s'') \<longrightarrow>
         SuccessCount r + int (length (BatchWriteResult.FailedItems r)) =
           SuccessCount result + int (length (BatchWriteResult.FailedItems result)) + int (length records - i)"
    by auto
next
  fix i result calls s msg cs s'
  show "(Panicked msg, calls @ cs, s') = (Returned r, cs', s'') \<longrightarrow>
         SuccessCount r + int (length (BatchWriteResult.FailedItems r)) =
           SuccessCount result + int (length (BatchWriteResult.FailedItems result)) + int (length records - i)"
    by simp
next
  fix i result calls s br cs s' out
  assume lt: "i < length records"
    and pb: "processBatch M st (take batchSize (drop i records)) s = (Returned (Some br, None), cs, s')"
    and ih: "out = (Returned r, cs', s'') \<longrightarrow>
         SuccessCount r + int (length (BatchWriteResult.FailedItems r)) =
           SuccessCount (mergeBatch result br) + int (length (BatchWriteResult.FailedItems (mergeBatch result br)))
             + int (length records - (i + batchSize))"
  have "SuccessCount br + int (length (BatchWriteResult.FailedItems br)) = int (length (take batchSize (drop i records)))"
    using processBatch_accounting_eq [OF pb marshalsAll_chunk [OF m]] .
  moreover have "int (length (take batchSize (drop i records))) + int (length records - (i + batchSize))
        = int (length records - i)"
    using chunk_length [of i records] by linarith
  ultimately show "out = (Returned r, cs', s'') \<longrightarrow>
         SuccessCount r + int (length (BatchWriteResult.FailedItems r)) =
           SuccessCount result + int (length (BatchWriteResult.FailedItems result)) + int (length records - i)"
    using ih by (auto simp: mergeBatch_def)
qed

lemma BatchStoreLoop_accounting_ge:
  "BatchStoreLoop M st records i result calls s = (Returned r, cs', s'') \<longrightarrow>
     SuccessCount result \<le> SuccessCount r \<and>
     SuccessCount result + int (length (BatchWriteResult.FailedItems result)) + int (length records - i)
       \<le> SuccessCount r + int (length (BatchWriteResult.FailedItems r))"
proof (rule BatchStoreLoop_rule [where P = "\<lambda>i result calls s out.
      out = (Returned r, cs', s'') \<longrightarrow>
     SuccessCount result \<le> SuccessCount r \<and>
     SuccessCount result + int (length (BatchWriteResult.FailedItems result)) + int (length records - i)
       \<le> SuccessCount r + int (length (BatchWriteResult.FailedItems r))"], goal_cases)
  case (1 i result calls s)
  then show ?case by auto
next
  case (2 i result calls s msg cs s')
  show ?case by simp
next
  case (3 i result calls s br cs s' out)
  have "0 \<le> SuccessCount br \<and>
        int (length (take batchSize (drop i records))) \<le> SuccessCount br + int (length (BatchWriteResult.FailedItems br))"
    using processBatch_accounting_ge [OF 3(2)] .
  moreover have "int (length (take batchSize (drop i records))) + int (length records - (i + batchSize))
        = int (length records - i)"
    using chunk_length [of i records] by linarith
  ultimately show ?case
    using 3(3) by (auto simp: mergeBatch_def)
qed

lemma BatchStoreLoop_no_panic:
  assumes wb: "wellBehaved st"
  shows "\<exists>r cs' s''. BatchStoreLoop M st records i result calls s = (Returned r, cs', s'')"
proof (rule BatchStoreLoop_rule [where P = "\<lambda>i result calls s out.
      \<exists>r cs' s''. out = (Returned r, cs', s'')"], goal_cases)
  case (1 i result calls s)
  show ?case by simp
next
  case (2 i result calls s msg cs s')
  then show ?case using processBatch_no_panic [OF wb, of M "take batchSize (drop i records)" s] by simp
next
  case (3 i result calls s br cs s' out)
  then show ?case by simp
qed

lemma ceil_step:
  assumes "i < (n::nat)"
  shows "1 + (n - (i + 25) + 24) div 25 = (n - i + 24) div 25"
proof (cases "i + 25 \<le> n")
  case True
  define x where "x = n - (i + 25) + 24"
  have "n - i + 24 = x + 25"
    unfolding x_def using True by linarith
  then have "(n - i + 24) div 25 = (x + 25) div 25"
    by (rule arg_cong)
  also have "\<dots> = x div 25 + 1"
    by simp
  finally show ?thesis
    unfolding x_def by linarith
next
  case False
  define y where "y = n - i + 24"
  have y: "25 * 1 \<le> y" "y < 25 * Suc 1" and z: "n - (i + 25) = 0"
    unfolding y_def using False assms by simp_all
  have "y div 25 = 1"
    using y by (rule div_nat_eqI)
  then show ?thesis
    unfolding y_def z by simp
qed

lemma BatchStoreLoop_calls:
  "BatchStoreLoop M st records i result calls s = (out', cs', s'') \<longrightarrow>
     (\<exists>new. cs' = calls @ new \<and> length new \<le> (length records - i + 24) div 25 \<and>
        (\<forall>c\<in>set new. 0 < itemCount c \<and> itemCount c \<le> batchSize))"
proof (rule BatchStoreLoop_rule [where P = "\<lambda>i result calls s out.
      out = (out', cs', s'') \<longrightarrow>
     (\<exists>new. cs' = calls @ new \<and> length new \<le> (length records - i + 24) div 25 \<and>
        (\<forall>c\<in>set new. 0 < itemCount c \<and> itemCount c \<le> batchSize))"], goal_cases)
  case (1 i result calls s)
  then show ?case by auto
next
  case (2 i result calls s msg cs s')
  have c: "length cs \<le> 1 \<and> (\<forall>c\<in>set cs. 0 < itemCount c \<and>
             itemCount c \<le> length (take batchSize (drop i records)))"
    using processBatch_calls [OF 2(2)] .
  have "1 \<le> (length records - i + 24) div 25"
    using ceil_step [OF 2(1)] by linarith
  then show ?case using c by (auto simp: batchSize_def)
next
  case (3 i result calls s br cs s' out)
  have c: "length cs \<le> 1 \<and> (\<forall>c\<in>set cs. 0 < itemCount c \<and>
             itemCount c \<le> length (take batchSize (drop i records)))"
    using processBatch_calls [OF 3(2)] .
  show ?case
  proof
    assume "out = (out', cs', s'')"
    with 3(3) obtain new where new: "cs' = (calls @ cs) @ new"
      "length new \<le> (length records - (i + batchSize) + 24) div 25"
      "\<forall>c\<in>set new. 0 < itemCount c \<and> itemCount c \<le> batchSize" by blast
    have "length cs \<le> 1" using c by blast
    moreover have "length new \<le> (length records - (i + 25) + 24) div 25"
      using new(2) by (simp only: batchSize_def)
    ultimately have "length cs + length new \<le> (length records - i + 24) div 25"
      using ceil_step [OF 3(1)] by linarith
    then have "length (cs @ new) \<le> (length records - i + 24) div 25"
      by (simp only: length_append)
    moreover have "\<forall>c\<in>set (cs @ new). 0 < itemCount c \<and> itemCount c \<le> batchSize"
      using c new(3) by (auto simp: batchSize_def)
    ultimately show "\<exists>new. cs' = calls @ new \<and> length new \<le> (length records - i + 24) div 25 \<and>
        (\<forall>c\<in>set new. 0 < itemCount c \<and> itemCount c \<le> batchSize)"
      using new(1) by (intro exI [of _ "cs @ new"]) simp
  qed
qed

lemma BatchStoreLoop_calls_exact:
  assumes m: "marshalsAll M records" and v: "invalidOf records = []"
  shows "BatchStoreLoop M st records i result calls s = (Returned r, cs', s'') \<longrightarrow>
     length cs' = length calls + (length records - i + 24) div 25"
proof (rule BatchStoreLoop_rule [where P = "\<lambda>i result calls s out.
      out = (Returned r, cs', s'') \<longrightarrow>
     length cs' = length calls + (length records - i + 24) div 25"], goal_cases)
  case (1 i result calls s)
  then show ?case by auto
next
  case (2 i result calls s msg cs s')
  show ?case by simp
next
  case (3 i result calls s br cs s' out)
  have "take batchSize (drop i records) \<noteq> []"
    using 3(1) by (simp add: batchSize_def)
  then have one: "length cs = 1"
    using processBatch_one_call [OF 3(2) marshalsAll_chunk [OF m] invalidOf_chunk [OF v]] by simp
  show ?case
  proof
    assume "out = (Returned r, cs', s'')"
    with 3(3) have "length cs' = length (calls @ cs) + (length records - (i + batchSize) + 24) div 25"
      by blast
    then have "length cs' = length calls + (1 + (length records - (i + 25) + 24) div 25)"
      using one by (simp only: batchSize_def length_append)
    then show "length cs' = length calls + (length records - i + 24) div 25"
      by (simp only: ceil_step [OF 3(1)])
  qed
qed

lemma BatchStoreVectors_no_error:
  assumes "BatchStoreVectors M st records s = (Returned (res, err), cs, s')"
  shows "err = None \<and> (\<exists>r. res = Some r)"
  using assms
  by (auto simp: BatchStoreVectors_def split: if_splits prod.splits exec.splits)

lemma BatchStoreVectors_accounting_eq:
  assumes "BatchStoreVectors M st records s = (Returned (Some r, err), cs, s')"
    and "marshalsAll M records"
  shows "SuccessCount r + int (length (BatchWriteResult.FailedItems r)) = int (length records)"
proof (cases "records = []")
  case True
  then show ?thesis using assms(1) by (auto simp: BatchStoreVectors_def)
next
  case False
  then have "BatchStoreLoop M st records 0
      \<lparr>SuccessCount = 0, BatchWriteResult.FailedItems = [], Errors = []\<rparr> [] s = (Returned r, cs, s')"
    using assms(1) by (auto simp: BatchStoreVectors_def split: prod.splits exec.splits)
  from BatchStoreLoop_accounting_eq [OF assms(2), rule_format, OF this]
  show ?thesis by simp
qed

lemma BatchStoreVectors_accounting_ge:
  assumes "BatchStoreVectors M st records s = (Returned (Some r, err), cs, s')"
  shows "0 \<le> SuccessCount r \<and>
         int (length records) \<le> SuccessCount r + int (length (BatchWriteResult.FailedItems r))"
proof (cases "records = []")
  case True
  then show ?thesis using assms(1) by (auto simp: BatchStoreVectors_def)
next
  case False
  then have "BatchStoreLoop M st records 0
      \<lparr>SuccessCount = 0, BatchWriteResult.FailedItems = [], Errors = []\<rparr> [] s = (Returned r, cs, s')"
    using assms(1) by (auto simp: BatchStoreVectors_def split: prod.splits exec.splits)
  from BatchStoreLoop_accounting_ge [rule_format, OF this]
  show ?thesis by simp
qed

lemma BatchStoreVectors_no_panic:
  assumes "wellBehaved st"
  shows "\<exists>r cs s'. BatchStoreVectors M st records s = (Returned (Some r, None), cs, s')"
proof (cases "records = []")
  case True
  then show ?thesis by (simp add: BatchStoreVectors_def)
next
  case False
  obtain r cs s' where "BatchStoreLoop M st records 0
      \<lparr>SuccessCount = 0, BatchWriteResult.FailedItems = [], Errors = []\<rparr> [] s = (Returned r, cs, s')"
    using BatchStoreLoop_no_panic [OF assms] by blast
  then show ?thesis using False by (simp add: BatchStoreVectors_def)
qed

lemma BatchStoreVectors_calls:
  assumes "BatchStoreVectors M st records s = (out, cs, s')"
  shows "length cs \<le> (length records + 24) div 25 \<and>
         (\<forall>c\<in>set cs. 0 < itemCount c \<and> itemCount c \<le> batchSize)"
proof (cases "records = []")
  case True
  then show ?thesis using assms by (auto simp: BatchStoreVectors_def)
next
  case False
  obtain out0 where "BatchStoreLoop M st records 0
      \<lparr>SuccessCount = 0, BatchWriteResult.FailedItems = [], Errors = []\<rparr> [] s = (out0, cs, s')"
    using assms False by (auto simp: BatchStoreVectors_def split: prod.splits exec.splits)
  from BatchStoreLoop_calls [rule_format, OF this]
  show ?thesis by simp
qed

lemma BatchStoreVectors_calls_exact:
  assumes "BatchStoreVectors M st records s = (Returned res, cs, s')"
    and "marshalsAll M records" and "invalidOf records = []"
  shows "length cs = (length records + 24) div 25"
proof (cases "records = []")
  case True
  then show ?thesis using assms(1) by (auto simp: BatchStoreVectors_def)
next
  case False
  obtain r where "BatchStoreLoop M st records 0
      \<lparr>SuccessCount = 0, BatchWriteResult.FailedItems = [], Errors = []\<rparr> [] s = (Returned r, cs, s')"
    using assms(1) False by (auto simp: BatchStoreVectors_def split: prod.splits exec.splits)
  from BatchStoreLoop_calls_exact [OF assms(2,3), rule_format, OF this]
  show ?thesis by simp
qed

text \<open>
  Claim C6. Let marshalling succeed on the records. Whatever the store answers, every
  outcome that \<open>processBatch\<close> returns for a chunk and every outcome that
  \<open>BatchStoreVectors\<close> returns for the whole list satisfies
  success count + number of failed items = number of records given. When the client
  returns an output object on every call and reports no more unprocessed items than a
  call carried, \<open>BatchStoreVectors\<close> does return such an outcome, with a \<open>nil\<close> error.
\<close>

theorem C6_batch_accounting:
  assumes "marshalsAll MarshalMap records"
  shows "(\<forall>i s0 r err cs s'.
            processBatch MarshalMap st (take batchSize (drop i records)) s0
              = (Returned (Some r, err), cs, s') \<longrightarrow>
            SuccessCount r + int (length (BatchWriteResult.FailedItems r))
              = int (length (take batchSize (drop i records)))) \<and>
         (\<forall>r err cs s'.
            BatchStoreVectors MarshalMap st records s = (Returned (Some r, err), cs, s') \<longrightarrow>
            SuccessCount r + int (length (BatchWriteResult.FailedItems r))
              = int (length records)) \<and>
         (wellBehaved st \<longrightarrow>
            (\<exists>r cs s'. BatchStoreVectors MarshalMap st records s
                          = (Returned (Some r, None), cs, s')))"
proof (intro conjI allI impI)
  fix i s0 r err cs s'
  assume "processBatch MarshalMap st (take batchSize (drop i records)) s0
            = (Returned (Some r, err), cs, s')"
  then show "SuccessCount r + int (length (BatchWriteResult.FailedItems r))
              = int (length (take batchSize (drop i records)))"
    by (rule processBatch_accounting_eq) (rule marshalsAll_chunk [OF assms])
next
  fix r err cs s'
  assume "BatchStoreVectors MarshalMap st records s = (Returned (Some r, err), cs, s')"
  then show "SuccessCount r + int (length (BatchWriteResult.FailedItems r)) = int (length records)"
    by (rule BatchStoreVectors_accounting_eq) (rule assms)
next
  assume "wellBehaved st"
  then show "\<exists>r cs s'. BatchStoreVectors MarshalMap st records s
                          = (Returned (Some r, None), cs, s')"
    by (rule BatchStoreVectors_no_panic)
qed

text \<open>One valid and one invalid record against a store that writes everything: 1 + 1 = 2.\<close>

theorem C6_witness:
  "\<exists>r cs s'. BatchStoreVectors idMarshal \<lparr>VectorStorage.client = acceptAll, tableName = ''vectors''\<rparr>
       [exampleVector ''paper1'', exampleVector []] 0 = (Returned (Some r, None), cs, s') \<and>
     SuccessCount r + int (length (BatchWriteResult.FailedItems r)) = 2"
proof -
  let ?st = "\<lparr>VectorStorage.client = acceptAll, tableName = ''vectors''\<rparr>"
  let ?rs = "[exampleVector ''paper1'', exampleVector []]"
  have m: "marshalsAll idMarshal ?rs"
    by (simp add: marshalsAll_def idMarshal_def)
  have wb: "wellBehaved ?st"
    by (simp add: wellBehaved_def acceptAll_def)
  from C6_batch_accounting [OF m, of ?st 0] wb
  show ?thesis by fastforce
qed

text \<open>
  Claim C10 asks for a non-\<open>nil\<close> result and a \<open>nil\<close> error under a hard call error
  of the store. With the client of the repository's own test
  \<open>TestBatchStoreVectors_DynamoDBError\<close>, which answers \<open>(nil, error)\<close>, the read of
  \<open>output.ConsumedCapacity\<close> ahead of the error check panics: nothing is returned.
  (Lemma \<open>BatchStoreVectors_no_error\<close> above: whenever the function does return, the error
  is \<open>nil\<close> and the result is not.)
\<close>

theorem C10_nil_output_panics:
  "BatchStoreVectors idMarshal
     \<lparr>VectorStorage.client = failHard, tableName = ''test-vectors-table''\<rparr>
     [exampleVector ''paper1''] 0
   = (Panicked ''nil pointer dereference'',
      [\<lparr>RequestItems = [(''test-vectors-table'', [PutRequest ''paper1''])]\<rparr>], 1)"
  by code_simp

section \<open>Ingestion writer: the retry loop and the chunk loop\<close>

lemma retryLoop_stop:
  "\<not> (attempt < m \<and> cur \<noteq> []) \<Longrightarrow>
     retryLoop w m attempt cur calls s = (Returned (Some (exhaustedError m cur)), calls, s)"
  by (subst retryLoop.simps) (auto simp: exhaustedError_def)

lemma retryLoop_hard:
  "attempt < m \<Longrightarrow> cur \<noteq> [] \<Longrightarrow>
   Writer.client w s (writeInput w cur) = ((result, Some err), s') \<Longrightarrow>
     retryLoop w m attempt cur calls s =
       (Returned (Some (''batch write failed on attempt '' @ fmtInt (int attempt + 1) @ '': '' @ err)),
        calls @ [(writeInput w cur, (result, Some err))], s')"
  by (subst retryLoop.simps) (simp add: writeInput_def Let_def split: option.splits)

lemma retryLoop_nil:
  "attempt < m \<Longrightarrow> cur \<noteq> [] \<Longrightarrow>
   Writer.client w s (writeInput w cur) = ((None, None), s') \<Longrightarrow>
     retryLoop w m attempt cur calls s =
       (Panicked ''nil pointer dereference'', calls @ [(writeInput w cur, (None, None))], s')"
  by (subst retryLoop.simps) (simp add: writeInput_def Let_def split: option.splits)

lemma retryLoop_done:
  "attempt < m \<Longrightarrow> cur \<noteq> [] \<Longrightarrow>
   Writer.client w s (writeInput w cur) = ((Some out, None), s') \<Longrightarrow>
   unprocessedIn (Writer.tableName w) out = [] \<Longrightarrow>
     retryLoop w m attempt cur calls s =
       (Returned None, calls @ [(writeInput w cur, (Some out, None))], s')"
  by (subst retryLoop.simps)
     (auto simp: writeInput_def unprocessedIn_def Let_def split: option.splits)

lemma retryLoop_again:
  "attempt < m \<Longrightarrow> cur \<noteq> [] \<Longrightarrow>
   Writer.client w s (writeInput w cur) = ((Some out, None), s') \<Longrightarrow>
   unprocessedIn (Writer.tableName w) out \<noteq> [] \<Longrightarrow>
     retryLoop w m attempt cur calls s =
       retryLoop w m (attempt + 1) (unprocessedIn (Writer.tableName w) out)
         (calls @ [(writeInput w cur, (Some out, None))]) s'"
  by (subst retryLoop.simps)
     (auto simp: writeInput_def unprocessedIn_def Let_def split: option.splits)

lemma retryLoop_rule:
  assumes stop: "\<And>attempt cur calls s. \<not> (attempt < m \<and> cur \<noteq> []) \<Longrightarrow>
            P attempt cur calls s (Returned (Some (exhaustedError m cur)), calls, s)"
    and hard: "\<And>attempt cur calls s result err s'. attempt < m \<Longrightarrow> cur \<noteq> [] \<Longrightarrow>
            Writer.client w s (writeInput w cur) = ((result, Some err), s') \<Longrightarrow>
            P attempt cur calls s
              (Returned (Some (''batch write failed on attempt '' @ fmtInt (int attempt + 1)
                               @ '': '' @ err)),
               calls @ [(writeInput w cur, (result, Some err))], s')"
    and nilp: "\<And>attempt cur calls s s'. attempt < m \<Longrightarrow> cur \<noteq> [] \<Longrightarrow>
            Writer.client w s (writeInput w cur) = ((None, None), s') \<Longrightarrow>
            P attempt cur calls s
              (Panicked ''nil pointer dereference'',
               calls @ [(writeInput w cur, (None, None))], s')"
    and fin: "\<And>attempt cur calls s out s'. attempt < m \<Longrightarrow> cur \<noteq> [] \<Longrightarrow>
            Writer.client w s (writeInput w cur) = ((Some out, None), s') \<Longrightarrow>
            unprocessedIn (Writer.tableName w) out = [] \<Longrightarrow>
            P attempt cur calls s
              (Returned None, calls @ [(writeInput w cur, (Some out, None))], s')"
    and again: "\<And>attempt cur calls s out s' res. attempt < m \<Longrightarrow> cur \<noteq> [] \<Longrightarrow>
            Writer.client w s (writeInput w cur) = ((Some out, None), s') \<Longrightarrow>
            unprocessedIn (Writer.tableName w) out \<noteq> [] \<Longrightarrow>
            P (attempt + 1) (unprocessedIn (Writer.tableName w) out)
              (calls @ [(writeInput w cur, (Some out, None))]) s' res \<Longrightarrow>
            P attempt cur calls s res"
  shows "P attempt cur calls s (retryLoop w m attempt cur calls s)"
proof (induction "m - attempt" arbitrary: attempt cur calls s rule: less_induct)
  case less
  show ?case
  proof (cases "attempt < m \<and> cur \<noteq> []")
    case False
    show ?thesis by (simp only: retryLoop_stop [OF False] stop [OF False])
  next
    case True
    then have a: "attempt < m" and c: "cur \<noteq> []" by simp_all
    obtain result err s' where cl: "Writer.client w s (writeInput w cur) = ((result, err), s')"
      by (metis surj_pair)
    show ?thesis
    proof (cases err)
      case (Some e)
      have cl': "Writer.client w s (writeInput w cur) = ((result, Some e), s')"
        using cl Some by simp
      show ?thesis by (simp only: retryLoop_hard [OF a c cl'] hard [OF a c cl'])
    next
      case None
      show ?thesis
      proof (cases result)
        case None': None
        have cl': "Writer.client w s (writeInput w cur) = ((None, None), s')"
          using cl None None' by simp
        show ?thesis by (simp only: retryLoop_nil [OF a c cl'] nilp [OF a c cl'])
      next
        case (Some out)
        have cl': "Writer.client w s (writeInput w cur) = ((Some out, None), s')"
          using cl None Some by simp
        show ?thesis
        proof (cases "unprocessedIn (Writer.tableName w) out = []")
          case True
          then show ?thesis by (simp only: retryLoop_done [OF a c cl' True] fin [OF a c cl' True])
        next
          case False
          have "m - (attempt + 1) < m - attempt" using a by simp
          from less [OF this]
          have "P (attempt + 1) (unprocessedIn (Writer.tableName w) out)
                  (calls @ [(writeInput w cur, (Some out, None))]) s'
                  (retryLoop w m (attempt + 1) (unprocessedIn (Writer.tableName w) out)
                     (calls @ [(writeInput w cur, (Some out, None))]) s')" .
          from again [OF a c cl' False this]
          show ?thesis by (simp only: retryLoop_again [OF a c cl' False])
        qed
      qed
    qed
  qed
qed

lemma sent_writeInput: "sent (Writer.tableName w) (writeInput w cur, ans) = cur"
  by (simp add: sent_def writeInput_def)

lemma retrySpec_single:
  assumes "attempt < m" "cur \<noteq> []"
    and "lastVerdict (Writer.tableName w) m attempt [(writeInput w cur, ans)] out"
  shows "retrySpec (Writer.tableName w) m attempt cur [(writeInput w cur, ans)] out"
  using assms by (simp add: retrySpec_def sent_writeInput)

lemma retrySpec_cons:
  assumes a: "attempt < m" and c: "cur \<noteq> []"
    and u: "unprocessedIn (Writer.tableName w) ans \<noteq> []"
    and ih: "retrySpec (Writer.tableName w) m (attempt + 1)
               (unprocessedIn (Writer.tableName w) ans) new out"
  shows "retrySpec (Writer.tableName w) m attempt cur
           ((writeInput w cur, (Some ans, None)) # new) out"
proof (cases "new = []")
  case True
  then have stop: "\<not> attempt + 1 < m" and out: "out = Returned (Some (exhaustedError m
        (unprocessedIn (Writer.tableName w) ans)))"
    using ih u by (simp_all add: retrySpec_def)
  have "m - attempt = 1" using a stop by linarith
  then show ?thesis
    using True a c u out
    by (simp add: retrySpec_def sent_writeInput lastVerdict_def)
next
  case False
  then obtain y ys where new: "new = y # ys" by (cases new) auto
  have ih': "chained (Writer.tableName w) new" "length new \<le> m - (attempt + 1)"
    "attempt + 1 < m" "sent (Writer.tableName w) (hd new) = unprocessedIn (Writer.tableName w) ans"
    "lastVerdict (Writer.tableName w) m (attempt + 1) new out"
    using ih False by (simp_all add: retrySpec_def)
  have ch: "chained (Writer.tableName w) ((writeInput w cur, (Some ans, None)) # new)"
    using ih'(1,4) u new by (simp add: unprocessedOf_def)
  have len: "length ((writeInput w cur, (Some ans, None)) # new) \<le> m - attempt"
    using ih'(2,3) by simp
  have lv: "lastVerdict (Writer.tableName w) m attempt
              ((writeInput w cur, (Some ans, None)) # new) out"
  proof -
    have eq: "length new = m - (attempt + 1) \<longrightarrow>
              length ((writeInput w cur, (Some ans, None)) # new) = m - attempt"
      using ih'(3) by auto
    show ?thesis
      using ih'(5) False eq
      by (auto simp: lastVerdict_def split: prod.splits option.splits if_splits)
  qed
  show ?thesis
    using ch len lv a c by (simp add: retrySpec_def sent_writeInput)
qed

lemma retryLoop_spec:
  "\<forall>out calls' s'. retryLoop w m attempt cur calls s = (out, calls', s') \<longrightarrow>
     (\<exists>new. calls' = calls @ new \<and> retrySpec (Writer.tableName w) m attempt cur new out)"
proof (rule retryLoop_rule [where P = "\<lambda>attempt cur calls s res.
     \<forall>out calls' s'. res = (out, calls', s') \<longrightarrow>
     (\<exists>new. calls' = calls @ new \<and> retrySpec (Writer.tableName w) m attempt cur new out)"],
    goal_cases)
  case (1 attempt cur calls s)
  then show ?case by (auto simp: retrySpec_def)
next
  case (2 attempt cur calls s result err s')
  have "retrySpec (Writer.tableName w) m attempt cur [(writeInput w cur, (result, Some err))]
          (Returned (Some (''batch write failed on attempt '' @ fmtInt (int attempt + 1)
                               @ '': '' @ err)))"
    by (rule retrySpec_single [OF 2(1,2)]) (simp add: lastVerdict_def split: option.splits)
  then show ?case by auto
next
  case (3 attempt cur calls s s')
  have "retrySpec (Writer.tableName w) m attempt cur [(writeInput w cur, (None, None))]
          (Panicked ''nil pointer dereference'')"
    by (rule retrySpec_single [OF 3(1,2)]) (simp add: lastVerdict_def)
  then show ?case by auto
next
  case (4 attempt cur calls s ans s')
  have "retrySpec (Writer.tableName w) m attempt cur [(writeInput w cur, (Some ans, None))]
          (Returned None)"
    by (rule retrySpec_single [OF 4(1,2)]) (simp add: lastVerdict_def 4(4))
  then show ?case by auto
next
  case (5 attempt cur calls s ans s' res)
  show ?case
  proof (intro allI impI)
    fix out calls' s''
    assume "res = (out, calls', s'')"
    with 5(5) obtain new where new: "calls' = (calls @ [(writeInput w cur, (Some ans, None))]) @ new"
      "retrySpec (Writer.tableName w) m (attempt + 1) (unprocessedIn (Writer.tableName w) ans) new out"
      by blast
    have "retrySpec (Writer.tableName w) m attempt cur
           ((writeInput w cur, (Some ans, None)) # new) out"
      by (rule retrySpec_cons [OF 5(1,2,4) new(2)])
    then show "\<exists>new. calls' = calls @ new \<and> retrySpec (Writer.tableName w) m attempt cur new out"
      using new(1) by (intro exI [of _ "(writeInput w cur, (Some ans, None)) # new"]) simp
  qed
qed

lemma executeBatchWriteWithRetry_spec:
  assumes "executeBatchWriteWithRetry w writeRequests s = (out, calls, s')"
  shows "retrySpec (Writer.tableName w) 3 0 writeRequests calls out"
  using retryLoop_spec [of w 3 0 writeRequests "[]" s] assms
  by (simp add: executeBatchWriteWithRetry_def)

lemma chained_nth:
  "chained table xs \<Longrightarrow> Suc k < length xs \<Longrightarrow>
     sent table (xs ! Suc k) = unprocessedOf table (xs ! k) \<and> unprocessedOf table (xs ! k) \<noteq> []"
proof (induction table xs arbitrary: k rule: chained.induct)
  case (1 table)
  then show ?case by simp
next
  case (2 table x)
  then show ?case by simp
next
  case (3 table x y ys)
  show ?case
  proof (cases k)
    case 0
    then show ?thesis using 3(2) by simp
  next
    case (Suc j)
    then show ?thesis using 3(1) [of j] 3(2,3) by simp
  qed
qed

lemma marshalPaper_loop:
  "foldl (marshalPaperStep M) ws papers = ws @ paperRequests M papers"
proof (induction papers arbitrary: ws)
  case Nil
  show ?case by (simp add: paperRequests_def)
next
  case (Cons p ps)
  show ?case
  proof (cases "M p")
    case (Inl e)
    then have "marshalPaperStep M ws p = ws" by (simp add: marshalPaperStep_def)
    then show ?thesis using Inl by (simp add: Cons.IH) (simp add: paperRequests_def)
  next
    case (Inr item)
    then have "marshalPaperStep M ws p = ws @ [PutRequest item]" by (simp add: marshalPaperStep_def)
    then show ?thesis using Inr by (simp add: Cons.IH) (simp add: paperRequests_def)
  qed
qed

lemma paperRequests_length: "length (paperRequests M papers) \<le> length papers"
  by (simp add: paperRequests_def)

lemma paperRequests_total:
  "filter (\<lambda>p. isl (M p)) papers = [] \<Longrightarrow> length (paperRequests M papers) = length papers"
  by (simp add: paperRequests_def filter_empty_conv)

lemma Writer_processBatch_unfold:
  "Writer_processBatch M w papers s =
     (if papers = [] then (Returned None, [], s)
      else if length papers > MaxBatchSize then
        (Returned (Some (''batch size '' @ fmtInt (int (length papers)) @ '' exceeds maximum ''
                         @ fmtInt (int MaxBatchSize))), [], s)
      else if paperRequests M papers = [] then
        (Returned (Some ''no valid write requests generated from batch''), [], s)
      else executeBatchWriteWithRetry w (paperRequests M papers) s)"
  by (simp add: Writer_processBatch_def marshalPaper_loop Let_def)

lemma Writer_processBatch_calls:
  assumes "Writer_processBatch M w papers s = (out, calls, s')"
  shows "length calls \<le> 3 \<and>
         (calls \<noteq> [] \<longrightarrow> length (sent (Writer.tableName w) (hd calls)) \<le> MaxBatchSize \<and>
                          sent (Writer.tableName w) (hd calls) \<noteq> [])"
proof (cases "papers = [] \<or> length papers > MaxBatchSize \<or> paperRequests M papers = []")
  case True
  then show ?thesis using assms by (auto simp: Writer_processBatch_unfold split: if_splits)
next
  case False
  then have run: "executeBatchWriteWithRetry w (paperRequests M papers) s = (out, calls, s')"
    using assms by (simp add: Writer_processBatch_unfold)
  have le: "length (paperRequests M papers) \<le> MaxBatchSize"
    using False paperRequests_length [of M papers] by linarith
  from executeBatchWriteWithRetry_spec [OF run] le False
  show ?thesis
    by (auto simp: retrySpec_def split: if_splits)
qed

lemma executeBatchWriteWithRetry_accepted:
  assumes acc: "acceptsEverything w" and ne: "reqs \<noteq> []"
  shows "\<exists>ans s'. executeBatchWriteWithRetry w reqs s
           = (Returned None, [(writeInput w reqs, (Some ans, None))], s')"
proof -
  obtain ans s' where cl: "Writer.client w s (writeInput w reqs) = ((Some ans, None), s')"
    and u: "unprocessedIn (Writer.tableName w) ans = []"
    using acc unfolding acceptsEverything_def by blast
  have "retryLoop w 3 0 reqs [] s = (Returned None, [] @ [(writeInput w reqs, (Some ans, None))], s')"
    by (rule retryLoop_done [OF _ ne cl u]) simp
  then show ?thesis by (simp add: executeBatchWriteWithRetry_def)
qed

lemma itemCount_writeInput: "itemCount (writeInput w reqs) = length reqs"
  by (simp add: itemCount_def writeInput_def)

lemma Writer_processBatch_accepted:
  assumes acc: "acceptsEverything w" and m: "filter (\<lambda>p. isl (M p)) papers = []"
    and ne: "papers \<noteq> []" and le: "length papers \<le> MaxBatchSize"
  shows "\<exists>x s'. Writer_processBatch M w papers s = (Returned None, [x], s') \<and>
                 itemCount (fst x) = length papers"
proof -
  have len: "length (paperRequests M papers) = length papers"
    by (rule paperRequests_total [OF m])
  then have ne': "paperRequests M papers \<noteq> []" using ne by auto
  from executeBatchWriteWithRetry_accepted [OF acc ne', of s]
  obtain ans s' where "executeBatchWriteWithRetry w (paperRequests M papers) s
      = (Returned None, [(writeInput w (paperRequests M papers), (Some ans, None))], s')"
    by blast
  then show ?thesis
    using ne le ne' len
    by (simp add: Writer_processBatch_unfold itemCount_writeInput)
qed

lemma upsert_chunk_eq:
  assumes "i < length papers"
  shows "take ((if i + MaxBatchSize > length papers then length papers else i + MaxBatchSize) - i)
           (drop i papers) = take MaxBatchSize (drop i papers)"
  using assms by (auto simp: MaxBatchSize_def)

lemma BatchUpsertLoop_stop:
  "\<not> i < length papers \<Longrightarrow>
     BatchUpsertLoop M w papers i st calls s = (Returned st, calls, s)"
  by (subst BatchUpsertLoop.simps) simp

lemma BatchUpsertLoop_panic:
  assumes "i < length papers"
    and "Writer_processBatch M w (take MaxBatchSize (drop i papers)) s = (Panicked msg, cs, s')"
  shows "BatchUpsertLoop M w papers i st calls s = (Panicked msg, calls @ cs, s')"
  using assms by (subst BatchUpsertLoop.simps) (simp add: Let_def upsert_chunk_eq)

lemma BatchUpsertLoop_failed:
  assumes "i < length papers"
    and "Writer_processBatch M w (take MaxBatchSize (drop i papers)) s = (Returned (Some err), cs, s')"
  shows "BatchUpsertLoop M w papers i st calls s =
         BatchUpsertLoop M w papers (i + MaxBatchSize)
           (upsertFailed st (take MaxBatchSize (drop i papers))) (calls @ cs) s'"
  using assms
  by (subst BatchUpsertLoop.simps) (simp add: Let_def upsert_chunk_eq upsertFailed_def)

lemma BatchUpsertLoop_succeeded:
  assumes "i < length papers"
    and "Writer_processBatch M w (take MaxBatchSize (drop i papers)) s = (Returned None, cs, s')"
  shows "BatchUpsertLoop M w papers i st calls s =
         BatchUpsertLoop M w papers (i + MaxBatchSize)
           (upsertSucceeded st (take MaxBatchSize (drop i papers))) (calls @ cs) s'"
  using assms
  by (subst BatchUpsertLoop.simps) (simp add: Let_def upsert_chunk_eq upsertSucceeded_def)

lemma BatchUpsertLoop_rule:
  assumes base: "\<And>i st calls s. \<not> i < length papers \<Longrightarrow> P i st calls s (Returned st, calls, s)"
    and panic: "\<And>i st calls s msg cs s'. i < length papers \<Longrightarrow>
            Writer_processBatch M w (take MaxBatchSize (drop i papers)) s = (Panicked msg, cs, s') \<Longrightarrow>
            P i st calls s (Panicked msg, calls @ cs, s')"
    and failed: "\<And>i st calls s err cs s' res. i < length papers \<Longrightarrow>
            Writer_processBatch M w (take MaxBatchSize (drop i papers)) s
              = (Returned (Some err), cs, s') \<Longrightarrow>
            P (i + MaxBatchSize) (upsertFailed st (take MaxBatchSize (drop i papers)))
              (calls @ cs) s' res \<Longrightarrow>
            P i st calls s res"
    and succeeded: "\<And>i st calls s cs s' res. i < length papers \<Longrightarrow>
            Writer_processBatch M w (take MaxBatchSize (drop i papers)) s
              = (Returned None, cs, s') \<Longrightarrow>
            P (i + MaxBatchSize) (upsertSucceeded st (take MaxBatchSize (drop i papers)))
              (calls @ cs) s' res \<Longrightarrow>
            P i st calls s res"
  shows "P i st calls s (BatchUpsertLoop M w papers i st calls s)"
proof (induction "length papers - i" arbitrary: i st calls s rule: less_induct)
  case less
  show ?case
  proof (cases "i < length papers")
    case False
    show ?thesis by (simp only: BatchUpsertLoop_stop [OF False] base [OF False])
  next
    case True
    obtain out cs s' where pb:
      "Writer_processBatch M w (take MaxBatchSize (drop i papers)) s = (out, cs, s')"
      by (metis prod_cases3)
    have dec: "length papers - (i + MaxBatchSize) < length papers - i"
      using True by (simp add: MaxBatchSize_def)
    show ?thesis
    proof (cases out)
      case (Panicked msg)
      have pb': "Writer_processBatch M w (take MaxBatchSize (drop i papers)) s = (Panicked msg, cs, s')"
        using pb Panicked by simp
      show ?thesis by (simp only: BatchUpsertLoop_panic [OF True pb'] panic [OF True pb'])
    next
      case (Returned e)
      show ?thesis
      proof (cases e)
        case None
        have pb': "Writer_processBatch M w (take MaxBatchSize (drop i papers)) s
                     = (Returned None, cs, s')"
          using pb Returned None by simp
        from succeeded [OF True pb' less [OF dec]]
        show ?thesis by (simp only: BatchUpsertLoop_succeeded [OF True pb'])
      next
        case (Some err)
        have pb': "Writer_processBatch M w (take MaxBatchSize (drop i papers)) s
                     = (Returned (Some err), cs, s')"
          using pb Returned Some by simp
        from failed [OF True pb' less [OF dec]]
        show ?thesis by (simp only: BatchUpsertLoop_failed [OF True pb'])
      qed
    qed
  qed
qed

lemma ceil_step3:
  assumes "i < (n::nat)"
  shows "3 + 3 * ((n - (i + 25) + 24) div 25) = 3 * ((n - i + 24) div 25)"
  using ceil_step [OF assms] by linarith

lemma BatchUpsertLoop_calls_bound:
  "\<forall>out calls' s'. BatchUpsertLoop M w papers i st calls s = (out, calls', s') \<longrightarrow>
     (\<exists>new. calls' = calls @ new \<and> length new \<le> 3 * ((length papers - i + 24) div 25))"
proof (rule BatchUpsertLoop_rule [where P = "\<lambda>i st calls s res.
     \<forall>out calls' s'. res = (out, calls', s') \<longrightarrow>
     (\<exists>new. calls' = calls @ new \<and> length new \<le> 3 * ((length papers - i + 24) div 25))"],
    goal_cases)
  case (1 i st calls s)
  then show ?case by auto
next
  case (2 i st calls s msg cs s')
  have "length cs \<le> 3" using Writer_processBatch_calls [OF 2(2)] by blast
  then have "length cs \<le> 3 * ((length papers - i + 24) div 25)"
    using ceil_step3 [OF 2(1)] by linarith
  then show ?case by auto
next
  case (3 i st calls s err cs s' res)
  have c: "length cs \<le> 3" using Writer_processBatch_calls [OF 3(2)] by blast
  show ?case
  proof (intro allI impI)
    fix out calls' s''
    assume "res = (out, calls', s'')"
    with 3(3) obtain new where new: "calls' = (calls @ cs) @ new"
      "length new \<le> 3 * ((length papers - (i + MaxBatchSize) + 24) div 25)" by blast
    have "length new \<le> 3 * ((length papers - (i + 25) + 24) div 25)"
      using new(2) by (simp only: MaxBatchSize_def)
    then have "length cs + length new \<le> 3 * ((length papers - i + 24) div 25)"
      using c ceil_step3 [OF 3(1)] by linarith
    then have "length (cs @ new) \<le> 3 * ((length papers - i + 24) div 25)"
      by (simp only: length_append)
    then show "\<exists>new. calls' = calls @ new \<and> length new \<le> 3 * ((length papers - i + 24) div 25)"
      using new(1) by (intro exI [of _ "cs @ new"]) simp
  qed
next
  case (4 i st calls s cs s' res)
  have c: "length cs \<le> 3" using Writer_processBatch_calls [OF 4(2)] by blast
  show ?case
  proof (intro allI impI)
    fix out calls' s''
    assume "res = (out, calls', s'')"
    with 4(3) obtain new where new: "calls' = (calls @ cs) @ new"
      "length new \<le> 3 * ((length papers - (i + MaxBatchSize) + 24) div 25)" by blast
    have "length new \<le> 3 * ((length papers - (i + 25) + 24) div 25)"
      using new(2) by (simp only: MaxBatchSize_def)
    then have "length cs + length new \<le> 3 * ((length papers - i + 24) div 25)"
      using c ceil_step3 [OF 4(1)] by linarith
    then have "length (cs @ new) \<le> 3 * ((length papers - i + 24) div 25)"
      by (simp only: length_append)
    then show "\<exists>new. calls' = calls @ new \<and> length new \<le> 3 * ((length papers - i + 24) div 25)"
      using new(1) by (intro exI [of _ "cs @ new"]) simp
  qed
qed

lemma marshal_chunk:
  "filter (\<lambda>p. isl (M p)) papers = [] \<Longrightarrow> filter (\<lambda>p. isl (M p)) (take n (drop i papers)) = []"
  by (auto simp: filter_empty_conv dest!: in_set_takeD in_set_dropD)

lemma upsert_chunk_length:
  "length (take MaxBatchSize (drop i papers)) + (length papers - (i + MaxBatchSize)) = length papers - i"
  by (auto simp: MaxBatchSize_def min_def)

lemma BatchUpsertLoop_accepted:
  assumes acc: "acceptsEverything w" and m: "filter (\<lambda>p. isl (M p)) papers = []"
  shows "\<exists>st' new s'. BatchUpsertLoop M w papers i st calls s = (Returned st', calls @ new, s') \<and>
           length new = (length papers - i + 24) div 25 \<and>
           (\<forall>x\<in>set new. 0 < itemCount (fst x) \<and> itemCount (fst x) \<le> MaxBatchSize) \<and>
           SuccessItems st' = SuccessItems st + int (length papers - i) \<and>
           UpsertStats.FailedItems st' = UpsertStats.FailedItems st"
proof (rule BatchUpsertLoop_rule [where P = "\<lambda>i st calls s res.
     \<exists>st' new s'. res = (Returned st', calls @ new, s') \<and>
           length new = (length papers - i + 24) div 25 \<and>
           (\<forall>x\<in>set new. 0 < itemCount (fst x) \<and> itemCount (fst x) \<le> MaxBatchSize) \<and>
           SuccessItems st' = SuccessItems st + int (length papers - i) \<and>
           UpsertStats.FailedItems st' = UpsertStats.FailedItems st"], goal_cases)
  case (1 i st calls s)
  then show ?case by simp
next
  case (2 i st calls s msg cs s')
  have "take MaxBatchSize (drop i papers) \<noteq> []" "length (take MaxBatchSize (drop i papers)) \<le> MaxBatchSize"
    using 2(1) by (simp_all add: MaxBatchSize_def)
  from Writer_processBatch_accepted [OF acc marshal_chunk [OF m] this, of s] 2(2)
  show ?case by auto
next
  case (3 i st calls s err cs s' res)
  have "take MaxBatchSize (drop i papers) \<noteq> []" "length (take MaxBatchSize (drop i papers)) \<le> MaxBatchSize"
    using 3(1) by (simp_all add: MaxBatchSize_def)
  from Writer_processBatch_accepted [OF acc marshal_chunk [OF m] this, of s] 3(2)
  show ?case by auto
next
  case (4 i st calls s cs s' res)
  have ne: "take MaxBatchSize (drop i papers) \<noteq> []"
    and le: "length (take MaxBatchSize (drop i papers)) \<le> MaxBatchSize"
    using 4(1) by (simp_all add: MaxBatchSize_def)
  from Writer_processBatch_accepted [OF acc marshal_chunk [OF m] ne le, of s] 4(2)
  obtain x where x: "cs = [x]" "itemCount (fst x) = length (take MaxBatchSize (drop i papers))"
    by auto
  from 4(3) obtain st' new s'' where r: "res = (Returned st', (calls @ cs) @ new, s'')"
    "length new = (length papers - (i + MaxBatchSize) + 24) div 25"
    "\<forall>x\<in>set new. 0 < itemCount (fst x) \<and> itemCount (fst x) \<le> MaxBatchSize"
    "SuccessItems st' = SuccessItems (upsertSucceeded st (take MaxBatchSize (drop i papers)))
        + int (length papers - (i + MaxBatchSize))"
    "UpsertStats.FailedItems st' = UpsertStats.FailedItems (upsertSucceeded st (take MaxBatchSize (drop i papers)))"
    by blast
  have l: "length (cs @ new) = (length papers - i + 24) div 25"
  proof -
    have "length new = (length papers - (i + 25) + 24) div 25"
      using r(2) by (simp only: MaxBatchSize_def)
    then have "length cs + length new = (length papers - i + 24) div 25"
      using x(1) ceil_step [OF 4(1)] by simp
    then show ?thesis by (simp only: length_append)
  qed
  have b: "\<forall>y\<in>set (cs @ new). 0 < itemCount (fst y) \<and> itemCount (fst y) \<le> MaxBatchSize"
    using x le ne r(3) by auto
  have su: "SuccessItems st' = SuccessItems st + int (length papers - i)"
  proof -
    have "int (length (take MaxBatchSize (drop i papers))) + int (length papers - (i + MaxBatchSize))
            = int (length papers - i)"
      using upsert_chunk_length [of i papers] by linarith
    then show ?thesis using r(4) by (simp add: upsertSucceeded_def)
  qed
  have fa: "UpsertStats.FailedItems st' = UpsertStats.FailedItems st"
    using r(5) by (simp add: upsertSucceeded_def)
  show ?case
    using r(1) l b su fa by (intro exI [of _ st'] exI [of _ "cs @ new"] exI [of _ s'']) simp
qed

lemma BatchUpsertWithStats_calls_bound:
  assumes "BatchUpsertWithStats M w papers s = (out, calls, s')"
  shows "length calls \<le> 3 * ((length papers + 24) div 25)"
proof (cases "papers = []")
  case True
  then show ?thesis using assms by (auto simp: BatchUpsertWithStats_def Let_def)
next
  case False
  obtain out0 where "BatchUpsertLoop M w papers 0
      \<lparr>TotalItems = int (length papers), SuccessItems = 0, UpsertStats.FailedItems = 0,
       BatchCount = (int (length papers) + int MaxBatchSize - 1) div int MaxBatchSize,
       SuccessBatches = 0, FailedBatches = 0\<rparr> [] s = (out0, calls, s')"
    using assms False
    by (auto simp: BatchUpsertWithStats_def Let_def split: prod.splits exec.splits)
  from BatchUpsertLoop_calls_bound [rule_format, OF this]
  show ?thesis by simp
qed

lemma BatchUpsertWithStats_accepted:
  assumes acc: "acceptsEverything w" and m: "filter (\<lambda>p. isl (M p)) papers = []"
  shows "\<exists>st' calls s'. BatchUpsertWithStats M w papers s = (Returned (Some st', None), calls, s') \<and>
           length calls = (length papers + 24) div 25 \<and>
           (\<forall>x\<in>set calls. 0 < itemCount (fst x) \<and> itemCount (fst x) \<le> MaxBatchSize) \<and>
           SuccessItems st' = int (length papers) \<and> UpsertStats.FailedItems st' = 0"
proof (cases "papers = []")
  case True
  then show ?thesis by (simp add: BatchUpsertWithStats_def Let_def)
next
  case False
  let ?st = "\<lparr>TotalItems = int (length papers), SuccessItems = 0, UpsertStats.FailedItems = 0,
       BatchCount = (int (length papers) + int MaxBatchSize - 1) div int MaxBatchSize,
       SuccessBatches = 0, FailedBatches = 0\<rparr>"
  from BatchUpsertLoop_accepted [OF acc m, of 0 ?st "[]" s]
  obtain st' new s' where "BatchUpsertLoop M w papers 0 ?st [] s = (Returned st', new, s')"
    "length new = (length papers + 24) div 25"
    "\<forall>x\<in>set new. 0 < itemCount (fst x) \<and> itemCount (fst x) \<le> MaxBatchSize"
    "SuccessItems st' = int (length papers)" "UpsertStats.FailedItems st' = 0"
    by auto
  then show ?thesis
    using False by (simp add: BatchUpsertWithStats_def Let_def)
qed

text \<open>
  Claim C7, amended. For a non-empty list of write requests, \<open>executeBatchWriteWithRetry\<close>
  makes at most three store calls in all: the first submission and at most two
  re-submissions. The first call carries all the requests; every later call carries
  exactly the items the call before reported as unprocessed, so an item that was written
  is not sent again. When the last call still leaves items unprocessed, it was the third
  call, and the failure names the number of those items; when the last call leaves
  nothing unprocessed the result is \<open>nil\<close>.
\<close>

theorem C7_retry_three_attempts:
  assumes "writeRequests \<noteq> []"
    and "executeBatchWriteWithRetry w writeRequests s = (out, calls, s')"
  shows "calls \<noteq> [] \<and> length calls \<le> 3 \<and>
         sent (Writer.tableName w) (hd calls) = writeRequests \<and>
         (\<forall>k. Suc k < length calls \<longrightarrow>
            unprocessedOf (Writer.tableName w) (calls ! k) \<noteq> [] \<and>
            sent (Writer.tableName w) (calls ! Suc k)
              = unprocessedOf (Writer.tableName w) (calls ! k)) \<and>
         (\<forall>ans. snd (last calls) = (Some ans, None) \<and>
                unprocessedIn (Writer.tableName w) ans \<noteq> [] \<longrightarrow>
            length calls = 3 \<and>
            out = Returned (Some (exhaustedError 3 (unprocessedIn (Writer.tableName w) ans)))) \<and>
         (\<forall>ans. snd (last calls) = (Some ans, None) \<and>
                unprocessedIn (Writer.tableName w) ans = [] \<longrightarrow>
            out = Returned None)"
proof -
  have spec: "retrySpec (Writer.tableName w) 3 0 writeRequests calls out"
    by (rule executeBatchWriteWithRetry_spec [OF assms(2)])
  have ne: "calls \<noteq> []"
    using spec assms(1) by (auto simp: retrySpec_def)
  have facts: "chained (Writer.tableName w) calls" "length calls \<le> 3"
    "sent (Writer.tableName w) (hd calls) = writeRequests"
    "lastVerdict (Writer.tableName w) 3 0 calls out"
    using spec ne by (simp_all add: retrySpec_def)
  have ch: "\<forall>k. Suc k < length calls \<longrightarrow>
            unprocessedOf (Writer.tableName w) (calls ! k) \<noteq> [] \<and>
            sent (Writer.tableName w) (calls ! Suc k)
              = unprocessedOf (Writer.tableName w) (calls ! k)"
    using chained_nth [OF facts(1)] by blast
  have v1: "\<forall>ans. snd (last calls) = (Some ans, None) \<and>
                unprocessedIn (Writer.tableName w) ans \<noteq> [] \<longrightarrow>
            length calls = 3 \<and>
            out = Returned (Some (exhaustedError 3 (unprocessedIn (Writer.tableName w) ans)))"
    using facts(4) by (auto simp: lastVerdict_def)
  have v2: "\<forall>ans. snd (last calls) = (Some ans, None) \<and>
                unprocessedIn (Writer.tableName w) ans = [] \<longrightarrow> out = Returned None"
    using facts(4) by (auto simp: lastVerdict_def)
  show ?thesis
    using ne facts(2,3) ch v1 v2 by blast
qed

text \<open>
  Claim C7 as stated speaks of up to three retry passes over the unprocessed subset. A
  store that reports every item as unprocessed sees three calls, that is two retry
  passes, before the failure is returned.
\<close>

theorem C7_counterexample:
  "fst (executeBatchWriteWithRetry \<lparr>Writer.client = rejectAll, tableName = ''papers''\<rparr>
          [PutRequest ''p1''] 0)
     = Returned (Some ''failed to process 1 items after 3 retries'') \<and>
   length (fst (snd (executeBatchWriteWithRetry
          \<lparr>Writer.client = rejectAll, tableName = ''papers''\<rparr> [PutRequest ''p1''] 0))) = 3 \<and>
   length (tl (fst (snd (executeBatchWriteWithRetry
          \<lparr>Writer.client = rejectAll, tableName = ''papers''\<rparr> [PutRequest ''p1''] 0)))) \<noteq> 3"
  by code_simp

text \<open>The same run, as an instance of the theorem.\<close>

theorem C7_witness:
  "length (fst (snd (executeBatchWriteWithRetry
      \<lparr>Writer.client = rejectAll, tableName = ''papers''\<rparr> [PutRequest ''p1''] 0))) \<le> 3 \<and>
   sent ''papers'' (hd (fst (snd (executeBatchWriteWithRetry
      \<lparr>Writer.client = rejectAll, tableName = ''papers''\<rparr> [PutRequest ''p1''] 0))))
     = [PutRequest ''p1'']"
proof -
  let ?w = "\<lparr>Writer.client = rejectAll, tableName = ''papers''\<rparr>"
  let ?run = "executeBatchWriteWithRetry ?w [PutRequest ''p1''] 0"
  have run: "?run = (fst ?run, fst (snd ?run), snd (snd ?run))" by simp
  have ne: "[PutRequest ''p1''] \<noteq> []" by simp
  from C7_retry_three_attempts [OF ne run]
  show ?thesis by simp
qed

subsection \<open>The chunks of both writers and their store calls\<close>

lemma chunksFrom_stop: "\<not> i < length xs \<Longrightarrow> chunksFrom i xs = []"
  by (simp add: chunksFrom_def)

lemma chunksFrom_step:
  assumes "i < length xs"
  shows "chunksFrom i xs = take 25 (drop i xs) # chunksFrom (i + 25) xs"
proof -
  let ?m = "(length xs - (i + 25) + 24) div 25"
  have c: "(length xs - i + 24) div 25 = Suc ?m"
    using ceil_step [OF assms] by simp
  have u: "[0..<Suc ?m] = 0 # map Suc [0..<?m]"
    by (simp add: upt_conv_Cons map_Suc_upt del: upt_Suc)
  show ?thesis
    unfolding chunksFrom_def c u by (simp add: comp_def add.assoc)
qed

lemma chunksFrom_rule:
  assumes stop: "\<And>i. \<not> i < length xs \<Longrightarrow> P i []"
    and step: "\<And>i. i < length xs \<Longrightarrow> P (i + 25) (chunksFrom (i + 25) xs) \<Longrightarrow>
                 P i (take 25 (drop i xs) # chunksFrom (i + 25) xs)"
  shows "P i (chunksFrom i xs)"
proof (induction "length xs - i" arbitrary: i rule: less_induct)
  case less
  show ?case
  proof (cases "i < length xs")
    case False
    then show ?thesis by (simp add: chunksFrom_stop stop)
  next
    case True
    have "length xs - (i + 25) < length xs - i" using True by simp
    from step [OF True less [OF this]] show ?thesis by (simp add: chunksFrom_step [OF True])
  qed
qed

lemma chunksFrom_concat: "concat (chunksFrom i xs) = drop i xs"
proof (rule chunksFrom_rule [where P = "\<lambda>i chs. concat chs = drop i xs"])
  fix i assume "\<not> i < length xs"
  then show "concat [] = drop i xs" by simp
next
  fix i assume "i < length xs" and ih: "concat (chunksFrom (i + 25) xs) = drop (i + 25) xs"
  have "take 25 (drop i xs) @ drop 25 (drop i xs) = drop i xs" by (rule append_take_drop_id)
  then show "concat (take 25 (drop i xs) # chunksFrom (i + 25) xs) = drop i xs"
    using ih by (simp add: add.commute)
qed

lemma chunksFrom_sizes: "\<forall>ch\<in>set (chunksFrom i xs). 0 < length ch \<and> length ch \<le> 25"
proof (rule chunksFrom_rule [where P = "\<lambda>i chs. \<forall>ch\<in>set chs. 0 < length ch \<and> length ch \<le> 25"])
  fix i assume "\<not> i < length xs"
  show "\<forall>ch\<in>set []. 0 < length ch \<and> length ch \<le> 25" by simp
next
  fix i assume "i < length xs"
    and "\<forall>ch\<in>set (chunksFrom (i + 25) xs). 0 < length ch \<and> length ch \<le> 25"
  then show "\<forall>ch\<in>set (take 25 (drop i xs) # chunksFrom (i + 25) xs). 0 < length ch \<and> length ch \<le> 25"
    by simp
qed

lemma chunks_split:
  "length (chunks xs) = (length xs + 24) div 25 \<and> concat (chunks xs) = xs \<and>
   (\<forall>ch\<in>set (chunks xs). 0 < length ch \<and> length ch \<le> 25)"
proof -
  have "length (chunks xs) = (length xs + 24) div 25"
    by (simp add: chunks_def chunksFrom_def)
  moreover have "concat (chunks xs) = xs"
    using chunksFrom_concat [of 0 xs] by (simp add: chunks_def)
  moreover have "\<forall>ch\<in>set (chunks xs). 0 < length ch \<and> length ch \<le> 25"
    using chunksFrom_sizes [of 0 xs] by (simp only: chunks_def)
  ultimately show ?thesis by blast
qed

lemma requestsOf_Nil: "requestsOf M [] = []"
  by (simp add: requestsOf_def)

lemma vectorCalls_single:
  "vectorCalls M st [ch] =
     (if requestsOf M (validOf ch) = [] then []
      else [\<lparr>RequestItems = [(VectorStorage.tableName st, requestsOf M (validOf ch))]\<rparr>])"
  by (simp add: vectorCalls_def)

lemma processBatch_call_list:
  assumes "processBatch M st ch s = (out, cs, s')"
  shows "cs = vectorCalls M st [ch]"
  using assms unfolding vectorCalls_single
  by (auto simp: processBatch_unfold Let_def requestsOf_Nil
      split: if_splits prod.splits option.splits exec.splits)

lemma vectorCalls_Cons: "vectorCalls M st (ch # chs) = vectorCalls M st [ch] @ vectorCalls M st chs"
  by (simp add: vectorCalls_def)

lemma BatchStoreLoop_call_list:
  "\<forall>out cs' s'. BatchStoreLoop M st records i result calls s = (out, cs', s') \<longrightarrow>
     (\<exists>new rest. cs' = calls @ new \<and> vectorCalls M st (chunksFrom i records) = new @ rest \<and>
        (\<forall>r. out = Returned r \<longrightarrow> rest = []))"
proof (rule BatchStoreLoop_rule [where P = "\<lambda>i result calls s res.
     \<forall>out cs' s'. res = (out, cs', s') \<longrightarrow>
     (\<exists>new rest. cs' = calls @ new \<and> vectorCalls M st (chunksFrom i records) = new @ rest \<and>
        (\<forall>r. out = Returned r \<longrightarrow> rest = []))"], goal_cases)
  case (1 i result calls s)
  then show ?case by (simp add: chunksFrom_stop vectorCalls_def)
next
  case (2 i result calls s msg cs s')
  have cs: "cs = vectorCalls M st [take 25 (drop i records)]"
    using processBatch_call_list [OF 2(2) [unfolded batchSize_def]] .
  have "vectorCalls M st (chunksFrom i records) = cs @ vectorCalls M st (chunksFrom (i + 25) records)"
    unfolding cs chunksFrom_step [OF 2(1)] by (rule vectorCalls_Cons)
  then show ?case by auto
next
  case (3 i result calls s br cs s' res)
  have cs: "cs = vectorCalls M st [take 25 (drop i records)]"
    using processBatch_call_list [OF 3(2) [unfolded batchSize_def]] .
  have e: "vectorCalls M st (chunksFrom i records) = cs @ vectorCalls M st (chunksFrom (i + 25) records)"
    unfolding cs chunksFrom_step [OF 3(1)] by (rule vectorCalls_Cons)
  show ?case
  proof (intro allI impI)
    fix out cs' s''
    assume "res = (out, cs', s'')"
    with 3(3) obtain new rest where n: "cs' = (calls @ cs) @ new"
      "vectorCalls M st (chunksFrom (i + batchSize) records) = new @ rest"
      "\<forall>r. out = Returned r \<longrightarrow> rest = []" by blast
    have "vectorCalls M st (chunksFrom i records) = (cs @ new) @ rest"
      using e n(2) by (simp add: batchSize_def)
    then show "\<exists>new rest. cs' = calls @ new \<and> vectorCalls M st (chunksFrom i records) = new @ rest \<and>
        (\<forall>r. out = Returned r \<longrightarrow> rest = [])"
      using n(1,3) by (intro exI [of _ "cs @ new"] exI [of _ rest]) simp
  qed
qed

lemma BatchStoreVectors_call_list:
  assumes "BatchStoreVectors M st records s = (out, cs, s')"
  shows "\<exists>rest. vectorCalls M st (chunks records) = cs @ rest \<and> (\<forall>r. out = Returned r \<longrightarrow> rest = [])"
proof (cases "records = []")
  case True
  then show ?thesis using assms
    by (auto simp: BatchStoreVectors_def chunks_def chunksFrom_def vectorCalls_def)
next
  case False
  obtain out0 where run: "BatchStoreLoop M st records 0
      \<lparr>SuccessCount = 0, BatchWriteResult.FailedItems = [], Errors = []\<rparr> [] s = (out0, cs, s')"
    and o: "\<forall>r. out = Returned r \<longrightarrow> (\<exists>r0. out0 = Returned r0)"
    using assms False by (auto simp: BatchStoreVectors_def split: prod.splits exec.splits)
  from BatchStoreLoop_call_list [rule_format, OF run] o
  show ?thesis by (auto simp: chunks_def)
qed

lemma vectorCalls_all_valid:
  assumes "marshalsAll M records" "invalidOf records = []"
  shows "map itemCount (vectorCalls M st (chunksFrom i records)) = map length (chunksFrom i records)"
proof (rule chunksFrom_rule [where P = "\<lambda>i chs. map itemCount (vectorCalls M st chs) = map length chs"])
  fix i show "map itemCount (vectorCalls M st []) = map length []" by (simp add: vectorCalls_def)
next
  fix i assume lt: "i < length records"
    and ih: "map itemCount (vectorCalls M st (chunksFrom (i + 25) records))
               = map length (chunksFrom (i + 25) records)"
  let ?ch = "take 25 (drop i records)"
  have v: "length (validOf ?ch) = length ?ch"
    using valid_invalid_length [of ?ch] invalidOf_chunk [OF assms(2), of 25 i] by simp
  have q: "length (requestsOf M (validOf ?ch)) = length (validOf ?ch)"
    using requests_unmarshalled_length [of M "validOf ?ch"]
      marshalsAll_valid [OF marshalsAll_chunk [OF assms(1), of 25 i]] by simp
  have ne: "requestsOf M (validOf ?ch) \<noteq> []" using v q lt by auto
  have "map itemCount (vectorCalls M st [?ch]) = [length ?ch]"
    using ne v q by (simp add: vectorCalls_def itemCount_def)
  then show "map itemCount (vectorCalls M st (?ch # chunksFrom (i + 25) records))
               = map length (?ch # chunksFrom (i + 25) records)"
    using ih by (subst vectorCalls_Cons) simp
qed

lemma Writer_processBatch_accepted_input:
  assumes acc: "acceptsEverything w" and m: "filter (\<lambda>p. isl (M p)) papers = []"
    and ne: "papers \<noteq> []" and le: "length papers \<le> MaxBatchSize"
  shows "\<exists>ans s'. Writer_processBatch M w papers s
           = (Returned None, [(writeInput w (paperRequests M papers), (Some ans, None))], s')"
proof -
  have len: "length (paperRequests M papers) = length papers"
    by (rule paperRequests_total [OF m])
  then have ne': "paperRequests M papers \<noteq> []" using ne by auto
  from executeBatchWriteWithRetry_accepted [OF acc ne', of s]
  show ?thesis
    using ne le ne' by (simp add: Writer_processBatch_unfold)
qed

lemma BatchUpsertLoop_accepted_inputs:
  assumes acc: "acceptsEverything w" and m: "filter (\<lambda>p. isl (M p)) papers = []"
  shows "\<exists>st' new s'. BatchUpsertLoop M w papers i st calls s = (Returned st', calls @ new, s') \<and>
           map fst new = writerCalls M w (chunksFrom i papers)"
proof (rule BatchUpsertLoop_rule [where P = "\<lambda>i st calls s res.
     \<exists>st' new s'. res = (Returned st', calls @ new, s') \<and>
           map fst new = writerCalls M w (chunksFrom i papers)"], goal_cases)
  case (1 i st calls s)
  then show ?case by (simp add: chunksFrom_stop writerCalls_def)
next
  case (2 i st calls s msg cs s')
  have "take MaxBatchSize (drop i papers) \<noteq> []" "length (take MaxBatchSize (drop i papers)) \<le> MaxBatchSize"
    using 2(1) by (simp_all add: MaxBatchSize_def)
  from Writer_processBatch_accepted_input [OF acc marshal_chunk [OF m] this, of s] 2(2)
  show ?case by auto
next
  case (3 i st calls s err cs s' res)
  have "take MaxBatchSize (drop i papers) \<noteq> []" "length (take MaxBatchSize (drop i papers)) \<le> MaxBatchSize"
    using 3(1) by (simp_all add: MaxBatchSize_def)
  from Writer_processBatch_accepted_input [OF acc marshal_chunk [OF m] this, of s] 3(2)
  show ?case by auto
next
  case (4 i st calls s cs s' res)
  have ne: "take MaxBatchSize (drop i papers) \<noteq> []"
    and le: "length (take MaxBatchSize (drop i papers)) \<le> MaxBatchSize"
    using 4(1) by (simp_all add: MaxBatchSize_def)
  from Writer_processBatch_accepted_input [OF acc marshal_chunk [OF m] ne le, of s] 4(2)
  have cs: "map fst cs = [writeInput w (paperRequests M (take 25 (drop i papers)))]"
    by (auto simp: MaxBatchSize_def)
  from 4(3) obtain st' new s'' where r: "res = (Returned st', (calls @ cs) @ new, s'')"
    "map fst new = writerCalls M w (chunksFrom (i + MaxBatchSize) papers)"
    by blast
  have "map fst (cs @ new) = writerCalls M w (chunksFrom i papers)"
    using cs r(2) by (simp add: chunksFrom_step [OF 4(1)] writerCalls_def MaxBatchSize_def)
  then show ?case
    using r(1) by (intro exI [of _ st'] exI [of _ "cs @ new"] exI [of _ s'']) simp
qed

lemma BatchUpsertWithStats_accepted_inputs:
  assumes acc: "acceptsEverything w" and m: "filter (\<lambda>p. isl (M p)) papers = []"
  shows "\<exists>st' calls s'. BatchUpsertWithStats M w papers s = (Returned (Some st', None), calls, s') \<and>
           map fst calls = writerCalls M w (chunks papers)"
proof (cases "papers = []")
  case True
  then show ?thesis
    by (simp add: BatchUpsertWithStats_def Let_def chunks_def chunksFrom_def writerCalls_def)
next
  case False
  let ?st = "\<lparr>TotalItems = int (length papers), SuccessItems = 0, UpsertStats.FailedItems = 0,
       BatchCount = (int (length papers) + int MaxBatchSize - 1) div int MaxBatchSize,
       SuccessBatches = 0, FailedBatches = 0\<rparr>"
  from BatchUpsertLoop_accepted_inputs [OF acc m, of 0 ?st "[]" s]
  obtain st' new s' where "BatchUpsertLoop M w papers 0 ?st [] s = (Returned st', new, s')"
    "map fst new = writerCalls M w (chunksFrom 0 papers)"
    by auto
  then show ?thesis
    using False by (simp add: BatchUpsertWithStats_def Let_def chunks_def)
qed

lemma writerCalls_sizes:
  assumes m: "filter (\<lambda>p. isl (M p)) papers = []"
  shows "map itemCount (writerCalls M w (chunksFrom i papers)) = map length (chunksFrom i papers)"
proof -
  have "\<forall>k. length (paperRequests M (take 25 (drop (i + 25 * k) papers)))
            = length (take 25 (drop (i + 25 * k) papers))"
    using paperRequests_total [OF marshal_chunk [OF m]] by blast
  then show ?thesis
    by (simp add: writerCalls_def chunksFrom_def itemCount_writeInput comp_def)
qed

text \<open>
  Claim C5, amended; \<open>(N + 24) div 25\<close> is the ceiling of \<open>N / 25\<close>. Both writers work
  through the \<open>ceil(N/25)\<close> consecutive chunks of 1 to 25 records that make up the list.
  The vector writer makes one store call for each chunk that has a valid record which
  marshals, carrying the write requests of those records, in chunk order, and none for a
  chunk without one: the calls of a run are a prefix of that list, and the whole of it when
  the run returns. So it makes at most \<open>ceil(N/25)\<close> calls, each with 1 to 25 items, and
  when every record is valid and marshals, a run that returns has made exactly
  \<open>ceil(N/25)\<close> calls, whose sizes are the chunk sizes. The source-record writer makes at
  most 3 calls for a chunk, the first with 1 to 25 items, so at most \<open>3 * ceil(N/25)\<close>
  calls; when every paper marshals and the store writes every item at the first attempt,
  it returns after exactly \<open>ceil(N/25)\<close> calls, one per chunk, whose sizes are the chunk
  sizes.
\<close>

theorem C5_chunked_store_calls:
  "(length (chunks records) = (length records + 24) div 25 \<and> concat (chunks records) = records \<and>
    (\<forall>ch\<in>set (chunks records). 0 < length ch \<and> length ch \<le> 25)) \<and>
   (\<forall>out cs s'. BatchStoreVectors MarshalMap st records s = (out, cs, s') \<longrightarrow>
      (\<exists>rest. vectorCalls MarshalMap st (chunks records) = cs @ rest \<and>
              (\<forall>r. out = Returned r \<longrightarrow> rest = [])) \<and>
      length cs \<le> (length records + 24) div 25 \<and>
      (\<forall>c\<in>set cs. 0 < itemCount c \<and> itemCount c \<le> 25)) \<and>
   (marshalsAll MarshalMap records \<and> invalidOf records = [] \<longrightarrow>
      (\<forall>r cs s'. BatchStoreVectors MarshalMap st records s = (Returned r, cs, s') \<longrightarrow>
         length cs = (length records + 24) div 25 \<and>
         map itemCount cs = map length (chunks records))) \<and>
   (\<forall>i s1 out cs s'.
      Writer_processBatch PaperMarshalMap w (take 25 (drop i papers)) s1 = (out, cs, s') \<longrightarrow>
      length cs \<le> 3 \<and>
      (cs \<noteq> [] \<longrightarrow> sent (Writer.tableName w) (hd cs) \<noteq> [] \<and>
                    length (sent (Writer.tableName w) (hd cs)) \<le> 25)) \<and>
   (\<forall>out calls s'. BatchUpsertWithStats PaperMarshalMap w papers s0 = (out, calls, s') \<longrightarrow>
      length calls \<le> 3 * ((length papers + 24) div 25)) \<and>
   (acceptsEverything w \<and> filter (\<lambda>p. isl (PaperMarshalMap p)) papers = [] \<longrightarrow>
      (\<exists>st' calls s'. BatchUpsertWithStats PaperMarshalMap w papers s0
                         = (Returned (Some st', None), calls, s') \<and>
         map fst calls = writerCalls PaperMarshalMap w (chunks papers) \<and>
         length calls = (length papers + 24) div 25 \<and>
         map (\<lambda>x. itemCount (fst x)) calls = map length (chunks papers)))"
proof (intro conjI allI impI)
  show "length (chunks records) = (length records + 24) div 25"
    "concat (chunks records) = records"
    "\<forall>ch\<in>set (chunks records). 0 < length ch \<and> length ch \<le> 25"
    using chunks_split [of records] by blast+
next
  fix out cs s'
  assume run: "BatchStoreVectors MarshalMap st records s = (out, cs, s')"
  show "\<exists>rest. vectorCalls MarshalMap st (chunks records) = cs @ rest \<and>
              (\<forall>r. out = Returned r \<longrightarrow> rest = [])"
    by (rule BatchStoreVectors_call_list [OF run])
  show "length cs \<le> (length records + 24) div 25"
    using BatchStoreVectors_calls [OF run] by blast
  show "\<forall>c\<in>set cs. 0 < itemCount c \<and> itemCount c \<le> 25"
    using BatchStoreVectors_calls [OF run] by (simp add: batchSize_def)
next
  fix r cs s'
  assume a: "marshalsAll MarshalMap records \<and> invalidOf records = []"
    and run: "BatchStoreVectors MarshalMap st records s = (Returned r, cs, s')"
  show "length cs = (length records + 24) div 25"
    using BatchStoreVectors_calls_exact [OF run] a by blast
  from BatchStoreVectors_call_list [OF run]
  have "vectorCalls MarshalMap st (chunks records) = cs" by auto
  then show "map itemCount cs = map length (chunks records)"
    using vectorCalls_all_valid [of MarshalMap records st 0] a by (simp add: chunks_def)
next
  fix i s1 out cs s'
  assume run: "Writer_processBatch PaperMarshalMap w (take 25 (drop i papers)) s1 = (out, cs, s')"
  show "length cs \<le> 3"
    using Writer_processBatch_calls [OF run] by blast
  show "cs \<noteq> [] \<Longrightarrow> sent (Writer.tableName w) (hd cs) \<noteq> []"
    using Writer_processBatch_calls [OF run] by blast
  show "cs \<noteq> [] \<Longrightarrow> length (sent (Writer.tableName w) (hd cs)) \<le> 25"
    using Writer_processBatch_calls [OF run] by (simp add: MaxBatchSize_def)
next
  fix out calls s'
  assume "BatchUpsertWithStats PaperMarshalMap w papers s0 = (out, calls, s')"
  then show "length calls \<le> 3 * ((length papers + 24) div 25)"
    by (rule BatchUpsertWithStats_calls_bound)
next
  assume a: "acceptsEverything w \<and> filter (\<lambda>p. isl (PaperMarshalMap p)) papers = []"
  then have acc: "acceptsEverything w" and m: "filter (\<lambda>p. isl (PaperMarshalMap p)) papers = []"
    by simp_all
  from BatchUpsertWithStats_accepted_inputs [OF acc m, of s0]
  obtain st' calls s' where run:
    "BatchUpsertWithStats PaperMarshalMap w papers s0 = (Returned (Some st', None), calls, s')"
    and inputs: "map fst calls = writerCalls PaperMarshalMap w (chunks papers)"
    by blast
  have len: "length calls = (length papers + 24) div 25"
  proof -
    have "length (map fst calls) = length (chunks papers)"
      unfolding inputs by (simp add: writerCalls_def)
    then show ?thesis using chunks_split [of papers] by simp
  qed
  have sizes: "map (\<lambda>x. itemCount (fst x)) calls = map length (chunks papers)"
  proof -
    have "map (\<lambda>x. itemCount (fst x)) calls = map itemCount (map fst calls)" by simp
    also have "\<dots> = map length (chunks papers)"
      unfolding inputs chunks_def by (rule writerCalls_sizes [OF m])
    finally show ?thesis .
  qed
  show "\<exists>st' calls s'. BatchUpsertWithStats PaperMarshalMap w papers s0
                         = (Returned (Some st', None), calls, s') \<and>
         map fst calls = writerCalls PaperMarshalMap w (chunks papers) \<and>
         length calls = (length papers + 24) div 25 \<and>
         map (\<lambda>x. itemCount (fst x)) calls = map length (chunks papers)"
    using run inputs len sizes by blast
qed

text \<open>
  Claim C5 as stated: exactly \<open>ceil(N/25)\<close> store calls for every list, from both
  writers. One record with an empty paper id is a chunk without a valid record, and the
  vector writer makes no call for it; one paper written to a store that returns every item
  unprocessed costs the source-record writer three calls. In both runs \<open>ceil(N/25) = 1\<close>.
\<close>

theorem C5_counterexample:
  "fst (snd (BatchStoreVectors idMarshal
       \<lparr>VectorStorage.client = acceptAll, tableName = ''vectors''\<rparr> [exampleVector []] 0)) = [] \<and>
   (length [exampleVector []] + 24) div 25 = 1 \<and>
   length (fst (snd (BatchUpsertWithStats paperMarshal
       \<lparr>Writer.client = rejectAll, tableName = ''papers''\<rparr> [examplePaper ''p1'' ''title''] 0))) = 3 \<and>
   (length [examplePaper ''p1'' ''title''] + 24) div 25 = 1"
  by code_simp

lemma exampleVector_valid: "validateVectorRecord (exampleVector ''paper1'') = None"
  by code_simp

lemma chunks_thirty: "length xs = 30 \<Longrightarrow> map length (chunks xs) = [25, 5]"
  by (simp add: chunks_def chunksFrom_def upt_conv_Cons)

text \<open>Thirty records: two calls, of sizes 25 and 5, from both writers.\<close>

theorem C5_witness:
  "(\<exists>r cs s'. BatchStoreVectors idMarshal
        \<lparr>VectorStorage.client = acceptAll, tableName = ''vectors''\<rparr>
        (replicate 30 (exampleVector ''paper1'')) 0 = (Returned (Some r, None), cs, s') \<and>
      map itemCount cs = [25, 5]) \<and>
   (\<exists>st' calls s'. BatchUpsertWithStats paperMarshal
        \<lparr>Writer.client = acceptAll, tableName = ''papers''\<rparr>
        (replicate 30 (examplePaper ''p1'' ''title'')) 0 = (Returned (Some st', None), calls, s') \<and>
      map (\<lambda>x. itemCount (fst x)) calls = [25, 5])"
proof -
  let ?st = "\<lparr>VectorStorage.client = acceptAll, tableName = ''vectors''\<rparr>"
  let ?w = "\<lparr>Writer.client = acceptAll, tableName = ''papers''\<rparr>"
  let ?rs = "replicate 30 (exampleVector ''paper1'')"
  let ?ps = "replicate 30 (examplePaper ''p1'' ''title'')"
  have h1: "marshalsAll idMarshal ?rs \<and> invalidOf ?rs = []"
    by (simp add: marshalsAll_def idMarshal_def invalidOf_def exampleVector_valid)
  have wb: "wellBehaved ?st"
    by (simp add: wellBehaved_def acceptAll_def)
  have h2: "acceptsEverything ?w \<and> filter (\<lambda>p. isl (paperMarshal p)) ?ps = []"
    by (simp add: acceptsEverything_def acceptAll_def unprocessedIn_def paperMarshal_def)
  obtain r cs s' where run: "BatchStoreVectors idMarshal ?st ?rs 0 = (Returned (Some r, None), cs, s')"
    using BatchStoreVectors_no_panic [OF wb] by blast
  note inst = C5_chunked_store_calls [of ?rs idMarshal ?st 0 paperMarshal ?w ?ps 0]
  have a: "map itemCount cs = [25, 5]"
    using inst h1 run chunks_thirty [of ?rs] by auto
  have b: "\<exists>st' calls s'. BatchUpsertWithStats paperMarshal ?w ?ps 0
      = (Returned (Some st', None), calls, s') \<and>
      map (\<lambda>x. itemCount (fst x)) calls = [25, 5]"
    using inst h2 chunks_thirty [of ?ps] by auto
  have c: "\<exists>r cs s'. BatchStoreVectors idMarshal ?st ?rs 0 = (Returned (Some r, None), cs, s') \<and>
      map itemCount cs = [25, 5]"
    using run a by (intro exI conjI)
  from c b show ?thesis
    by (rule conjI)
qed

section \<open>Paginated retriever: the page ceiling\<close>

lemma validatePage_loop:
  "foldl validatePageStep (vs, lg) papers =
     (vs @ filter (\<lambda>p. validatePaper p = None) papers,
      lg @ map (\<lambda>p. (LevelWarn, ''Invalid paper data found''))
             (filter (\<lambda>p. validatePaper p \<noteq> None) papers))"
proof (induction papers arbitrary: vs lg)
  case Nil
  show ?case by simp
next
  case (Cons p ps)
  show ?case
  proof (cases "validatePaper p")
    case None
    then have "validatePageStep (vs, lg) p = (vs @ [p], lg)" by (simp add: validatePageStep_def)
    then show ?thesis using None by (simp add: Cons.IH)
  next
    case (Some e)
    then have "validatePageStep (vs, lg) p = (vs, lg @ [(LevelWarn, ''Invalid paper data found'')])"
      by (simp add: validatePageStep_def)
    then show ?thesis using Some by (simp add: Cons.IH)
  qed
qed

lemma combine_loop:
  "foldl (combineStep TrimSpace) (cts, lg) papers =
     (cts @ combinedTextsOf TrimSpace papers,
      lg @ map (\<lambda>p. (LevelWarn, ''Skipping paper with empty title and abstract''))
             (filter (\<lambda>p. RetrieverPaper.Title p = [] \<and> RetrieverPaper.Abstract p = []) papers))"
proof (induction papers arbitrary: cts lg)
  case Nil
  show ?case by (simp add: combinedTextsOf_def)
next
  case (Cons p ps)
  show ?case
  proof (cases "RetrieverPaper.Title p = [] \<and> RetrieverPaper.Abstract p = []")
    case True
    then have "combineStep TrimSpace (cts, lg) p =
        (cts, lg @ [(LevelWarn, ''Skipping paper with empty title and abstract'')])"
      by (simp add: combineStep_def)
    then show ?thesis using True by (simp add: Cons.IH) (simp add: combinedTextsOf_def)
  next
    case False
    then have "combineStep TrimSpace (cts, lg) p = (cts @ [combinedTextOf TrimSpace p], lg)"
      by (simp add: combineStep_def combinedTextOf_def Let_def)
    then show ?thesis using False by (simp add: Cons.IH) (simp add: combinedTextsOf_def)
  qed
qed

lemma pageLoop_stop:
  "\<not> pageCount < m \<Longrightarrow>
     pageLoop U r traceID m pageCount key allPapers calls lg s
       = (Returned (Inr (allPapers, pageCount)), calls, lg, s)"
  by (subst pageLoop.simps) simp

lemma pageLoop_calls_bound:
  "\<forall>out calls' lg' s'. pageLoop U r traceID m pageCount key allPapers calls lg s
       = (out, calls', lg', s') \<longrightarrow>
     (\<exists>new. calls' = calls @ new \<and> length new \<le> m - pageCount)"
proof (induction "m - pageCount" arbitrary: pageCount key allPapers calls lg s rule: less_induct)
  case less
  show ?case
  proof (cases "pageCount < m")
    case False
    then show ?thesis by (simp add: pageLoop_stop)
  next
    case True
    have dec: "m - (pageCount + 1) < m - pageCount" using True by simp
    note ih = less [OF dec, rule_format]
    show ?thesis
    proof (intro allI impI)
      fix out calls' lg' s'
      assume run: "pageLoop U r traceID m pageCount key allPapers calls lg s = (out, calls', lg', s')"
      obtain result err s1 where cl:
        "DataRetriever.client r s (queryInput r traceID key) = ((result, err), s1)"
        by (metis surj_pair)
      show "\<exists>new. calls' = calls @ new \<and> length new \<le> m - pageCount"
      proof (cases "\<exists>res k ps. result = Some res \<and> err = None \<and> U (Items res) = Inr ps
                      \<and> LastEvaluatedKey res = Some k")
        case False
        have "calls' = calls @ [(queryInput r traceID key, (result, err))]"
          using run True cl False
          by (subst (asm) pageLoop.simps)
             (auto simp: Let_def queryInput_def validatePage_loop
               split: option.splits sum.splits prod.splits)
        then show ?thesis using True by (intro exI [of _ "[(queryInput r traceID key, (result, err))]"]) simp
      next
        case True': True
        then obtain res k ps where f: "result = Some res" "err = None" "U (Items res) = Inr ps"
          "LastEvaluatedKey res = Some k" by blast
        obtain lgx where
          "pageLoop U r traceID m (pageCount + 1) (Some k)
             (allPapers @ filter (\<lambda>p. validatePaper p = None) ps)
             (calls @ [(queryInput r traceID key, (Some res, None))]) lgx s1 = (out, calls', lg', s')"
          using run True cl f
          by (subst (asm) pageLoop.simps)
             (auto simp: Let_def queryInput_def validatePage_loop)
        from ih [OF this] obtain new where
          "calls' = (calls @ [(queryInput r traceID key, (Some res, None))]) @ new"
          "length new \<le> m - (pageCount + 1)" by blast
        then show ?thesis
          using True
          by (intro exI [of _ "(queryInput r traceID key, (Some res, None)) # new"]) simp
      qed
    qed
  qed
qed

lemma errorFree_append: "errorFree (a @ b) = (errorFree a \<and> errorFree b)"
  by (simp add: errorFree_def)

lemma errorFree_warns: "errorFree (map (\<lambda>p. (LevelWarn, msg)) ps)"
  by (simp add: errorFree_def filter_empty_conv)

lemma pageLoop_alwaysMore:
  assumes am: "alwaysMore U r"
  shows "errorFree lg \<Longrightarrow> pageCount \<le> m \<Longrightarrow>
     \<exists>new lg' s'. pageLoop U r traceID m pageCount key allPapers calls lg s
         = (Returned (Inr (allPapers @ concat (map (pagePapers U) new), m)), calls @ new, lg', s') \<and>
       length new = m - pageCount \<and> errorFree lg'"
proof (induction "m - pageCount" arbitrary: pageCount key allPapers calls lg s rule: less_induct)
  case less
  show ?case
  proof (cases "pageCount < m")
    case False
    then have "pageCount = m" using less.prems(2) by simp
    then show ?thesis using less.prems(1) by (simp add: pageLoop_stop)
  next
    case True
    obtain res k ps s1 where cl:
      "DataRetriever.client r s (queryInput r traceID key) = ((Some res, None), s1)"
      and f: "LastEvaluatedKey res = Some k" "U (Items res) = Inr ps"
      using am unfolding alwaysMore_def by blast
    let ?x = "(queryInput r traceID key, (Some res, None))"
    let ?lg = "(lg @ map (\<lambda>p. (LevelWarn, ''Invalid paper data found''))
                  (filter (\<lambda>p. validatePaper p \<noteq> None) ps))
               @ [(LevelInfo, ''Retrieved paper batch'')]"
    have step: "pageLoop U r traceID m pageCount key allPapers calls lg s =
          pageLoop U r traceID m (pageCount + 1) (Some k)
             (allPapers @ filter (\<lambda>p. validatePaper p = None) ps) (calls @ [?x]) ?lg s1"
      using True cl f
      by (subst pageLoop.simps) (simp add: Let_def queryInput_def validatePage_loop)
    have ef: "errorFree ?lg"
      using less.prems(1) by (simp add: errorFree_append errorFree_warns) (simp add: errorFree_def)
    have dec: "m - (pageCount + 1) < m - pageCount" and le: "pageCount + 1 \<le> m"
      using True by simp_all
    from less.hyps [OF dec ef le]
    obtain new lg' s' where r:
      "pageLoop U r traceID m (pageCount + 1) (Some k)
          (allPapers @ filter (\<lambda>p. validatePaper p = None) ps) (calls @ [?x]) ?lg s1
        = (Returned (Inr ((allPapers @ filter (\<lambda>p. validatePaper p = None) ps)
                           @ concat (map (pagePapers U) new), m)),
           (calls @ [?x]) @ new, lg', s')"
      "length new = m - (pageCount + 1)" "errorFree lg'"
      by blast
    have pp: "pagePapers U ?x = filter (\<lambda>p. validatePaper p = None) ps"
      using f by (simp add: pagePapers_def)
    have "pageLoop U r traceID m pageCount key allPapers calls lg s
         = (Returned (Inr (allPapers @ concat (map (pagePapers U) (?x # new)), m)),
            calls @ (?x # new), lg', s')"
      using step r(1) pp by simp
    moreover have "length (?x # new) = m - pageCount"
      using r(2) True by simp
    ultimately show ?thesis
      using r(3) by blast
  qed
qed

text \<open>
  Claim C8, amended. Whatever the store answers, the retriever makes at most 100 page
  queries. For a non-empty trace id and a store that answers every query with a page whose
  items unmarshal and a next cursor, it returns after exactly 100 queries, with a nil error,
  the warning of the page limit in its log and no line of level error, and the texts
  combined from the valid papers of the pages it retrieved.
\<close>

theorem C8_pagination_ceiling:
  "(\<forall>out calls lg s'.
      GetCombinedTextsByTraceID UnmarshalListOfMaps TrimSpace r traceID s = (out, calls, lg, s')
      \<longrightarrow> length calls \<le> 100) \<and>
   (traceID \<noteq> [] \<and> alwaysMore UnmarshalListOfMaps r \<longrightarrow>
      (\<exists>texts calls lg s'.
         GetCombinedTextsByTraceID UnmarshalListOfMaps TrimSpace r traceID s
           = (Returned (texts, None), calls, lg, s') \<and>
         length calls = 100 \<and>
         (LevelWarn, ''Hit maximum page limit during retrieval'') \<in> set lg \<and>
         errorFree lg \<and>
         texts = combinedTextsOf TrimSpace (concat (map (pagePapers UnmarshalListOfMaps) calls))))"
proof (intro conjI allI impI)
  fix out calls lg s'
  assume run: "GetCombinedTextsByTraceID UnmarshalListOfMaps TrimSpace r traceID s = (out, calls, lg, s')"
  show "length calls \<le> 100"
  proof (cases "traceID = []")
    case True
    then show ?thesis using run by (simp add: GetCombinedTextsByTraceID_def)
  next
    case False
    obtain out0 lg0 where "pageLoop UnmarshalListOfMaps r traceID maxPages 0 None [] []
                [(LevelInfo, ''Starting paper retrieval by traceID'')] s = (out0, calls, lg0, s')"
      using run False
      by (auto simp: GetCombinedTextsByTraceID_def Let_def combine_loop
          split: prod.splits exec.splits sum.splits if_splits)
    from pageLoop_calls_bound [rule_format, OF this]
    show ?thesis by (simp add: maxPages_def)
  qed
next
  assume a: "traceID \<noteq> [] \<and> alwaysMore UnmarshalListOfMaps r"
  then have ne: "traceID \<noteq> []" and am: "alwaysMore UnmarshalListOfMaps r" by simp_all
  have ef0: "errorFree [(LevelInfo, ''Starting paper retrieval by traceID'')]"
    by (simp add: errorFree_def)
  from pageLoop_alwaysMore [OF am ef0, of 0 maxPages traceID None "[]" "[]" s]
  obtain new lg' s' where r:
    "pageLoop UnmarshalListOfMaps r traceID maxPages 0 None [] []
        [(LevelInfo, ''Starting paper retrieval by traceID'')] s
      = (Returned (Inr (concat (map (pagePapers UnmarshalListOfMaps) new), maxPages)), new, lg', s')"
    "length new = maxPages" "errorFree lg'"
    by auto
  let ?all = "concat (map (pagePapers UnmarshalListOfMaps) new)"
  let ?lg1 = "(lg' @ [(LevelWarn, ''Hit maximum page limit during retrieval'')])
               @ [(LevelInfo, ''Completed paper retrieval by traceID'')]"
  have ef1: "errorFree ?lg1"
    using r(3) by (simp add: errorFree_def)
  show "\<exists>texts calls lg s'.
         GetCombinedTextsByTraceID UnmarshalListOfMaps TrimSpace r traceID s
           = (Returned (texts, None), calls, lg, s') \<and>
         length calls = 100 \<and>
         (LevelWarn, ''Hit maximum page limit during retrieval'') \<in> set lg \<and>
         errorFree lg \<and>
         texts = combinedTextsOf TrimSpace (concat (map (pagePapers UnmarshalListOfMaps) calls))"
  proof (cases "?all = []")
    case True
    have "GetCombinedTextsByTraceID UnmarshalListOfMaps TrimSpace r traceID s
            = (Returned ([], None), new, ?lg1, s')"
      using ne r(1) True by (simp add: GetCombinedTextsByTraceID_def Let_def)
    moreover have "[] = combinedTextsOf TrimSpace ?all"
      using True by (simp add: combinedTextsOf_def)
    ultimately show ?thesis
      using r(2) ef1 by (intro exI [of _ "[]"] exI [of _ new] exI [of _ ?lg1] exI [of _ s'])
        (simp add: maxPages_def)
  next
    case False
    let ?lg2 = "((?lg1 @ [(LevelInfo, ''Starting text combination'')])
                 @ map (\<lambda>p. (LevelWarn, ''Skipping paper with empty title and abstract''))
                     (filter (\<lambda>p. RetrieverPaper.Title p = [] \<and> RetrieverPaper.Abstract p = []) ?all))
               @ [(LevelInfo, ''Completed text combination'')]"
    have "GetCombinedTextsByTraceID UnmarshalListOfMaps TrimSpace r traceID s
            = (Returned (combinedTextsOf TrimSpace ?all, None), new, ?lg2, s')"
      using ne r(1) False by (simp add: GetCombinedTextsByTraceID_def Let_def combine_loop)
    moreover have "errorFree ?lg2"
      using ef1 by (simp add: errorFree_append errorFree_warns) (simp add: errorFree_def)
    ultimately show ?thesis
      using r(2)
      by (intro exI [of _ "combinedTextsOf TrimSpace ?all"] exI [of _ new] exI [of _ ?lg2]
          exI [of _ s']) (simp add: maxPages_def)
  qed
qed

text \<open>
  Claim C8 as stated: exactly 100 pages against every store that always returns a next
  cursor. A store whose pages carry a next cursor and an item that does not unmarshal is
  queried once: the retriever returns the unmarshalling error of page 1, logged at level
  error.
\<close>

theorem C8_counterexample:
  "GetCombinedTextsByTraceID strictPapers (\<lambda>x. x)
      \<lparr>DataRetriever.client = malformedPages, tableName = ''papers'',
       indexName = ''trace-id-index''\<rparr> ''test-trace-123'' 0
    = (Returned ([], Some (''failed to unmarshal papers on page 1: ''
           @ ''UnmarshalTypeError: cannot unmarshal number into Go value of type string'')),
       [(\<lparr>TableName = ''papers'', IndexName = ''trace-id-index'',
          KeyConditionExpression = ''trace_id = :trace_id'',
          ExpressionAttributeValues = [('':trace_id'', ''test-trace-123'')],
          ScanIndexForward = False, ExclusiveStartKey = None\<rparr>,
         (Some \<lparr>Items = [None], LastEvaluatedKey = Some 0\<rparr>, None))],
       [(LevelInfo, ''Starting paper retrieval by traceID''),
        (LevelError, ''Failed to unmarshal papers'')],
       1)"
  by code_simp

text \<open>A store that never runs out of pages, one valid paper a page.\<close>

theorem C8_witness:
  "\<exists>texts calls lg s'.
      GetCombinedTextsByTraceID rawPapers (\<lambda>x. x)
        \<lparr>DataRetriever.client = endlessPages, tableName = ''papers'',
         indexName = ''trace-id-index''\<rparr> ''test-trace-123'' 0
        = (Returned (texts, None), calls, lg, s') \<and>
      length calls = 100 \<and>
      (LevelWarn, ''Hit maximum page limit during retrieval'') \<in> set lg \<and>
      errorFree lg"
proof -
  let ?r = "\<lparr>DataRetriever.client = endlessPages, tableName = ''papers'',
             indexName = ''trace-id-index''\<rparr>"
  have am: "alwaysMore rawPapers ?r"
    by (simp add: alwaysMore_def endlessPages_def rawPapers_def)
  have ne: "''test-trace-123'' \<noteq> []" by simp
  from C8_pagination_ceiling [of rawPapers "\<lambda>x. x" ?r "''test-trace-123''" 0] am ne
  show ?thesis by blast
qed

section \<open>Vectorization stage: validation, classification and the returned error\<close>

text \<open>
  Claim C9. With an empty trace id the retriever returns the error
  \<open>traceID cannot be empty\<close> before it logs or queries anything, and the vectorization
  stage returns a failed result with the validation error before it calls the retriever,
  the embedding service or the storage; neither changes the world.
\<close>

theorem C9_empty_trace_id:
  "GetCombinedTextsByTraceID UnmarshalListOfMaps TrimSpace r [] s
     = (Returned ([], Some ''traceID cannot be empty''), [], [], s) \<and>
   processVectorization vc clock [] w
     = (Returned (Some \<lparr>ProcessingResult.TraceID = [], Status = StatusFailed,
                        TotalPapers = 0, EmbeddingsGenerated = 0, VectorsStored = 0,
                        FailedEmbeddings = 0, FailedStorage = 0,
                        ProcessingResult.ProcessingTimeMs = 0,
                        ErrorMessage = ''validation: traceID cannot be empty'',
                        Timestamp = rfc3339 clock (now clock w)\<rparr>,
                  Some \<lparr>Stage = ''validation'', Message = ''traceID cannot be empty'',
                        Cause = None\<rparr>),
        [], w)"
  by (simp add: GetCombinedTextsByTraceID_def processVectorization_def ProcessingError_Error_def)

end
